theory Spec2Isabelle
  imports Complex_Main
begin

section \<open>JavaScript numbers\<close>

text \<open>
  The layout code computes with JavaScript numbers. They are modelled by their four kinds
  of value: a finite number, the two infinities and NaN. The operations follow IEEE 754
  on the special values (\<open>0/0\<close>, \<open>Infinity - Infinity\<close> and \<open>0 * Infinity\<close> are NaN, NaN
  is absorbing, the square root of a negative number is NaN). On finite operands they
  are the exact operations of the reals: rounding, overflow and the sign of zero are not
  modelled, and a zero divisor counts as \<open>+0\<close> (the only divisor of the code that can be
  zero is a result of \<open>Math.sqrt\<close>, which is never \<open>-0\<close> there).
\<close>

datatype jsnum = Fin real | PInf | NInf | NaN

fun js_neg :: "jsnum \<Rightarrow> jsnum" where
  "js_neg (Fin a) = Fin (- a)"
| "js_neg PInf = NInf"
| "js_neg NInf = PInf"
| "js_neg NaN = NaN"

fun js_add :: "jsnum \<Rightarrow> jsnum \<Rightarrow> jsnum" where
  "js_add (Fin a) (Fin b) = Fin (a + b)"
| "js_add (Fin a) PInf = PInf"
| "js_add (Fin a) NInf = NInf"
| "js_add PInf (Fin b) = PInf"
| "js_add PInf PInf = PInf"
| "js_add PInf NInf = NaN"
| "js_add NInf (Fin b) = NInf"
| "js_add NInf NInf = NInf"
| "js_add NInf PInf = NaN"
| "js_add NaN b = NaN"
| "js_add a NaN = NaN"

definition js_sub :: "jsnum \<Rightarrow> jsnum \<Rightarrow> jsnum" where
  "js_sub a b = js_add a (js_neg b)"

fun js_mul :: "jsnum \<Rightarrow> jsnum \<Rightarrow> jsnum" where
  "js_mul (Fin a) (Fin b) = Fin (a * b)"
| "js_mul (Fin a) PInf = (if a = 0 then NaN else if 0 < a then PInf else NInf)"
| "js_mul (Fin a) NInf = (if a = 0 then NaN else if 0 < a then NInf else PInf)"
| "js_mul PInf (Fin b) = (if b = 0 then NaN else if 0 < b then PInf else NInf)"
| "js_mul NInf (Fin b) = (if b = 0 then NaN else if 0 < b then NInf else PInf)"
| "js_mul PInf PInf = PInf"
| "js_mul PInf NInf = NInf"
| "js_mul NInf PInf = NInf"
| "js_mul NInf NInf = PInf"
| "js_mul NaN b = NaN"
| "js_mul a NaN = NaN"

fun js_div :: "jsnum \<Rightarrow> jsnum \<Rightarrow> jsnum" where
  "js_div (Fin a) (Fin b) =
     (if b = 0 then (if a = 0 then NaN else if 0 < a then PInf else NInf)
      else Fin (a / b))"
| "js_div (Fin a) PInf = Fin 0"
| "js_div (Fin a) NInf = Fin 0"
| "js_div PInf (Fin b) = (if 0 \<le> b then PInf else NInf)"
| "js_div NInf (Fin b) = (if 0 \<le> b then NInf else PInf)"
| "js_div PInf PInf = NaN"
| "js_div PInf NInf = NaN"
| "js_div NInf PInf = NaN"
| "js_div NInf NInf = NaN"
| "js_div NaN b = NaN"
| "js_div a NaN = NaN"

fun js_sqrt :: "jsnum \<Rightarrow> jsnum" where
  "js_sqrt (Fin a) = (if a < 0 then NaN else Fin (sqrt a))"
| "js_sqrt PInf = PInf"
| "js_sqrt NInf = NaN"
| "js_sqrt NaN = NaN"

fun is_finite :: "jsnum \<Rightarrow> bool" where
  "is_finite (Fin a) = True"
| "is_finite b = False"


section \<open>The graph: nodes and edges\<close>

text \<open>
  A node carries the fields of the data set (\<open>name\<close>, \<open>group\<close>), the identity assigned by
  \<open>loadNetworkData\<close> and the nine numbers of the layout. The group is a natural number,
  as in the data set. An edge refers to its end points by index; the index is an
  integer, so that an index out of range can be written down.
\<close>

record node =
  node_id :: nat
  name :: string
  group :: nat
  x :: jsnum
  y :: jsnum
  z :: jsnum
  vx :: jsnum
  vy :: jsnum
  vz :: jsnum
  fx :: jsnum
  fy :: jsnum
  fz :: jsnum

record edge =
  source :: int
  target :: int

text \<open>
  The module-level arrays \<open>nodes\<close> and \<open>edges\<close>. The layout works on them in place; it
  is written for every state that has these two fields, so it also runs on the whole
  application state below.
\<close>

record graph =
  nodes :: "node list"
  edges :: "edge list"

datatype js_error = TypeError

datatype outcome = Completed | Threw js_error

text \<open>Reading \<open>arr[i]\<close>: outside the array the value is \<open>undefined\<close>, here \<open>None\<close>.\<close>

definition js_index :: "'a list \<Rightarrow> int \<Rightarrow> 'a option" where
  "js_index arr i = (if 0 \<le> i \<and> i < int (length arr) then Some (arr ! nat i) else None)"


section \<open>The force layout\<close>

definition iterations :: nat where
  "iterations = 300"

definition repulsionStrength :: jsnum where
  "repulsionStrength = Fin 1000"

definition attractionStrength :: jsnum where
  "attractionStrength = Fin (1 / 10)"

definition damping :: jsnum where
  "damping = Fin (9 / 10)"

text \<open>Reset forces: the body of the first \<open>nodes.forEach\<close>.\<close>

definition reset_force :: "node \<Rightarrow> node" where
  "reset_force n = n\<lparr>fx := Fin 0, fy := Fin 0, fz := Fin 0\<rparr>"

text \<open>
  The body of the inner repulsion loop, for the indices \<open>i\<close> and \<open>j\<close>. The six
  assignments are made one after the other on the array, as in the source.
\<close>

definition repel :: "nat \<Rightarrow> nat \<Rightarrow> node list \<Rightarrow> node list" where
  "repel i j ns =
     (let dx = js_sub (x (ns ! i)) (x (ns ! j));
          dy = js_sub (y (ns ! i)) (y (ns ! j));
          dz = js_sub (z (ns ! i)) (z (ns ! j));
          distance = js_add (js_sqrt (js_add (js_add (js_mul dx dx) (js_mul dy dy)) (js_mul dz dz)))
                            (Fin (1 / 10));
          force = js_div repulsionStrength (js_mul distance distance);
          fx' = js_mul (js_div dx distance) force;
          fy' = js_mul (js_div dy distance) force;
          fz' = js_mul (js_div dz distance) force;
          ns1 = ns[i := (ns ! i)\<lparr>fx := js_add (fx (ns ! i)) fx'\<rparr>];
          ns2 = ns1[i := (ns1 ! i)\<lparr>fy := js_add (fy (ns1 ! i)) fy'\<rparr>];
          ns3 = ns2[i := (ns2 ! i)\<lparr>fz := js_add (fz (ns2 ! i)) fz'\<rparr>];
          ns4 = ns3[j := (ns3 ! j)\<lparr>fx := js_sub (fx (ns3 ! j)) fx'\<rparr>];
          ns5 = ns4[j := (ns4 ! j)\<lparr>fy := js_sub (fy (ns4 ! j)) fy'\<rparr>]
      in ns5[j := (ns5 ! j)\<lparr>fz := js_sub (fz (ns5 ! j)) fz'\<rparr>])"

text \<open>
  \<open>for (i = 0; i < nodes.length; i++) for (j = i + 1; j < nodes.length; j++)\<close>: the
  length of the array does not change, so each loop runs over a fixed index range.
\<close>

definition repulsion :: "node list \<Rightarrow> node list" where
  "repulsion ns =
     fold (\<lambda>i ns'. fold (\<lambda>j. repel i j) [Suc i ..< length ns'] ns') [0 ..< length ns] ns"

text \<open>
  The body of \<open>edges.forEach\<close>. \<open>target.x\<close> is read before \<open>source.x\<close>, and reading a
  property of \<open>undefined\<close> throws a TypeError. When source and target are the same object
  (a self-edge) the later assignments see the earlier ones.
\<close>

definition attract :: "edge \<Rightarrow> node list \<Rightarrow> outcome \<times> node list" where
  "attract e ns =
     (case js_index ns (target e) of
        None \<Rightarrow> (Threw TypeError, ns)
      | Some tgt \<Rightarrow>
         (case js_index ns (source e) of
            None \<Rightarrow> (Threw TypeError, ns)
          | Some src \<Rightarrow>
             (let s = nat (source e);
                  t = nat (target e);
                  dx = js_sub (x tgt) (x src);
                  dy = js_sub (y tgt) (y src);
                  dz = js_sub (z tgt) (z src);
                  distance = js_sqrt (js_add (js_add (js_mul dx dx) (js_mul dy dy)) (js_mul dz dz));
                  force = js_mul attractionStrength distance;
                  fx' = js_mul (js_div dx distance) force;
                  fy' = js_mul (js_div dy distance) force;
                  fz' = js_mul (js_div dz distance) force;
                  ns1 = ns[s := (ns ! s)\<lparr>fx := js_add (fx (ns ! s)) fx'\<rparr>];
                  ns2 = ns1[s := (ns1 ! s)\<lparr>fy := js_add (fy (ns1 ! s)) fy'\<rparr>];
                  ns3 = ns2[s := (ns2 ! s)\<lparr>fz := js_add (fz (ns2 ! s)) fz'\<rparr>];
                  ns4 = ns3[t := (ns3 ! t)\<lparr>fx := js_sub (fx (ns3 ! t)) fx'\<rparr>];
                  ns5 = ns4[t := (ns4 ! t)\<lparr>fy := js_sub (fy (ns4 ! t)) fy'\<rparr>]
              in (Completed, ns5[t := (ns5 ! t)\<lparr>fz := js_sub (fz (ns5 ! t)) fz'\<rparr>]))))"

text \<open>\<open>edges.forEach\<close>: an exception ends the loop and leaves the array as it is then.\<close>

fun attraction :: "edge list \<Rightarrow> node list \<Rightarrow> outcome \<times> node list" where
  "attraction [] ns = (Completed, ns)"
| "attraction (e # es) ns =
     (case attract e ns of
        (Completed, ns') \<Rightarrow> attraction es ns'
      | (Threw err, ns') \<Rightarrow> (Threw err, ns'))"

text \<open>Update positions: the body of the last \<open>nodes.forEach\<close>.\<close>

definition integrate :: "node \<Rightarrow> node" where
  "integrate n =
     (let n1 = n\<lparr>vx := js_mul (js_add (vx n) (fx n)) damping\<rparr>;
          n2 = n1\<lparr>vy := js_mul (js_add (vy n1) (fy n1)) damping\<rparr>;
          n3 = n2\<lparr>vz := js_mul (js_add (vz n2) (fz n2)) damping\<rparr>;
          n4 = n3\<lparr>x := js_add (x n3) (vx n3)\<rparr>;
          n5 = n4\<lparr>y := js_add (y n4) (vy n4)\<rparr>
      in n5\<lparr>z := js_add (z n5) (vz n5)\<rparr>)"

text \<open>One pass of the body of the \<open>for (iter ...)\<close> loop.\<close>

definition iteration :: "'a graph_scheme \<Rightarrow> outcome \<times> 'a graph_scheme" where
  "iteration g =
     (let ns1 = map reset_force (nodes g);
          ns2 = repulsion ns1
      in case attraction (edges g) ns2 of
           (Completed, ns3) \<Rightarrow> (Completed, g\<lparr>nodes := map integrate ns3\<rparr>)
         | (Threw err, ns3) \<Rightarrow> (Threw err, g\<lparr>nodes := ns3\<rparr>))"

function layout_loop :: "nat \<Rightarrow> 'a graph_scheme \<Rightarrow> outcome \<times> 'a graph_scheme" where
  "layout_loop iter g =
     (if iter < iterations then
        (case iteration g of
           (Completed, g') \<Rightarrow> layout_loop (iter + 1) g'
         | (Threw err, g') \<Rightarrow> (Threw err, g'))
      else (Completed, g))"
  by pat_completeness auto
termination
  by (relation "measure (\<lambda>(iter, g). iterations - iter)") auto

definition applyForceLayout :: "'a graph_scheme \<Rightarrow> outcome \<times> 'a graph_scheme" where
  "applyForceLayout g = layout_loop 0 g"


section \<open>Loading the data and building the bodies\<close>

text \<open>
  The parsed data set: node records with a name and a group, and links with the indices
  of their end points.
\<close>

record raw_node =
  raw_name :: string
  raw_group :: nat

record dataset =
  data_nodes :: "raw_node list"
  links :: "edge list"

text \<open>
  A sphere of the scene. The colour of its material is kept as the hexadecimal number
  that \<open>setHex\<close> writes; \<open>userData\<close> holds the name, the group and the colour and scale
  recorded when the sphere is created.
\<close>

record userData =
  ud_name :: string
  ud_group :: nat
  originalColor :: nat
  originalScale :: real

record body =
  position :: "jsnum \<times> jsnum \<times> jsnum"
  color :: nat
  scale :: real
  userData :: userData

text \<open>A line of the scene: the positions of its two end points.\<close>

type_synonym line = "(jsnum \<times> jsnum \<times> jsnum) \<times> (jsnum \<times> jsnum \<times> jsnum)"

datatype cursor = Unset | Pointer | Default

text \<open>
  The application state: the graph, the arrays of scene objects, the hover state, the
  tooltip, the cursor of the document body and the errors written to the console.
\<close>

record app = graph +
  nodeObjects :: "body list"
  edgeObjects :: "line list"
  hoveredNode :: "nat option"
  tooltip_display :: bool
  tooltip_name :: string
  tooltip_group :: nat
  tooltip_left :: int
  tooltip_top :: int
  body_cursor :: cursor
  console :: "js_error list"

definition initial_app :: app where
  "initial_app =
     \<lparr>nodes = [], edges = [], nodeObjects = [], edgeObjects = [], hoveredNode = None,
      tooltip_display = False, tooltip_name = [], tooltip_group = 0, tooltip_left = 0,
      tooltip_top = 0, body_cursor = Unset, console = []\<rparr>"

definition groupColors :: "nat list" where
  "groupColors =
     [0x0078d4, 0x107c10, 0xff4b4b, 0xffb900, 0x5c2d91, 0x00bcf2, 0x498205, 0xd13438,
      0xca5010, 0x8764b8, 0x038387, 0x8e562e, 0x567c73, 0x486991, 0x744da9]"

text \<open>
  The body of the \<open>nodes.forEach\<close> of \<open>loadNetworkData\<close>, for the node at index \<open>i\<close>.
  \<open>rnd k\<close> is the value of the \<open>k\<close>-th call of \<open>Math.random\<close>; each node takes three.
  The force fields do not exist yet; they are NaN here, which is what arithmetic on a
  missing property gives, and every pass of the layout overwrites them first.
\<close>

definition init_node :: "(nat \<Rightarrow> real) \<Rightarrow> nat \<Rightarrow> raw_node \<Rightarrow> node" where
  "init_node rnd i r =
     \<lparr>node_id = i, name = raw_name r, group = raw_group r,
      x = js_mul (js_sub (Fin (rnd (3 * i))) (Fin (1 / 2))) (Fin 40),
      y = js_mul (js_sub (Fin (rnd (3 * i + 1))) (Fin (1 / 2))) (Fin 40),
      z = js_mul (js_sub (Fin (rnd (3 * i + 2))) (Fin (1 / 2))) (Fin 40),
      vx = Fin 0, vy = Fin 0, vz = Fin 0, fx = NaN, fy = NaN, fz = NaN\<rparr>"

text \<open>
  The first \<open>edges.forEach\<close> of \<open>createNetworkVisualization\<close>: \<open>source.x\<close> is read first.
\<close>

fun create_edges :: "edge list \<Rightarrow> node list \<Rightarrow> line list \<Rightarrow> outcome \<times> line list" where
  "create_edges [] ns ls = (Completed, ls)"
| "create_edges (e # es) ns ls =
     (case js_index ns (source e) of
        None \<Rightarrow> (Threw TypeError, ls)
      | Some src \<Rightarrow>
         (case js_index ns (target e) of
            None \<Rightarrow> (Threw TypeError, ls)
          | Some tgt \<Rightarrow>
             create_edges es ns (ls @ [((x src, y src, z src), (x tgt, y tgt, z tgt))])))"

text \<open>The body of its \<open>nodes.forEach\<close>: a new sphere has scale 1.\<close>

definition create_sphere :: "node \<Rightarrow> body" where
  "create_sphere n =
     (let c = groupColors ! (group n mod length groupColors)
      in \<lparr>position = (x n, y n, z n), color = c, scale = 1,
          userData = \<lparr>ud_name = name n, ud_group = group n, originalColor = c,
                      originalScale = 1\<rparr>\<rparr>)"

definition createNetworkVisualization :: "app \<Rightarrow> outcome \<times> app" where
  "createNetworkVisualization st =
     (case create_edges (edges st) (nodes st) (edgeObjects st) of
        (Threw err, ls) \<Rightarrow> (Threw err, st\<lparr>edgeObjects := ls\<rparr>)
      | (Completed, ls) \<Rightarrow>
          (Completed, st\<lparr>edgeObjects := ls,
                          nodeObjects := nodeObjects st @ map create_sphere (nodes st)\<rparr>))"

text \<open>
  \<open>loadNetworkData\<close>, from the parsed data on. An exception of the layout or of the
  construction of the scene is caught and written to the console.
\<close>

definition loadNetworkData :: "(nat \<Rightarrow> real) \<Rightarrow> dataset \<Rightarrow> app \<Rightarrow> app" where
  "loadNetworkData rnd data st =
     (let st1 = st\<lparr>nodes := map (\<lambda>(i, r). init_node rnd i r) (enumerate 0 (data_nodes data)),
                   edges := links data\<rparr>
      in case applyForceLayout st1 of
           (Threw err, st2) \<Rightarrow> st2\<lparr>console := console st2 @ [err]\<rparr>
         | (Completed, st2) \<Rightarrow>
             (case createNetworkVisualization st2 of
                (Threw err, st3) \<Rightarrow> st3\<lparr>console := console st3 @ [err]\<rparr>
              | (Completed, st3) \<Rightarrow> st3))"


section \<open>Picking and hovering\<close>

record intersection =
  distance :: real
  object :: nat

text \<open>
  Modelled from the spec: \<open>raycaster.intersectObjects\<close> belongs to the three.js library
  and is not among the sources. Following section 4.3 of the specification, every body
  is tested on its own, and the bodies that the ray meets are returned with their ray
  parameters, the nearest first. The test of one body against the ray of the event is
  the parameter \<open>hit\<close>, which gives the ray parameter of the body if the ray meets it.
  A body is referred to by its index in \<open>nodeObjects\<close>.
\<close>

definition intersectObjects :: "(body \<Rightarrow> real option) \<Rightarrow> body list \<Rightarrow> intersection list" where
  "intersectObjects hit objs =
     sort_key distance
       (concat (map (\<lambda>i. case hit (objs ! i) of
                            None \<Rightarrow> []
                          | Some t \<Rightarrow> [\<lparr>distance = t, object = i\<rparr>])
                    [0 ..< length objs]))"

record mouse_event =
  clientX :: int
  clientY :: int

text \<open>
  The two visual actions of the handler, recorded in the order in which they happen:
  writing the highlight colour and scale to a body, and writing the recorded colour and
  scale back.
\<close>

datatype action = HighlightApply nat | HighlightRevert nat

fun is_apply :: "action \<Rightarrow> bool" where
  "is_apply (HighlightApply b) = True"
| "is_apply (HighlightRevert b) = False"

text \<open>The block \<open>if (hoveredNode) { ... }\<close>.\<close>

definition reset_hover :: "app \<Rightarrow> action list \<times> app" where
  "reset_hover st =
     (case hoveredNode st of
        None \<Rightarrow> ([], st)
      | Some h \<Rightarrow>
         (let objs1 = (nodeObjects st)
                        [h := (nodeObjects st ! h)
                                \<lparr>color := originalColor (userData (nodeObjects st ! h))\<rparr>];
              objs2 = objs1[h := (objs1 ! h)\<lparr>scale := originalScale (userData (objs1 ! h))\<rparr>]
          in ([HighlightRevert h],
              st\<lparr>nodeObjects := objs2, hoveredNode := None, tooltip_display := False\<rparr>)))"

text \<open>
  \<open>onMouseMove\<close>. The result of \<open>raycaster.intersectObjects(nodeObjects)\<close> for the event
  is the argument \<open>intersects\<close>. The lighter colour is computed by the colour arithmetic
  of three.js from the recorded colour; it is the parameter \<open>lighterColor\<close>.
\<close>

definition onMouseMove ::
  "(nat \<Rightarrow> nat) \<Rightarrow> intersection list \<Rightarrow> mouse_event \<Rightarrow> app \<Rightarrow> action list \<times> app" where
  "onMouseMove lighterColor intersects event st =
     (let (acts, st1) = reset_hover st
      in case intersects of
           [] \<Rightarrow> (acts, st1\<lparr>body_cursor := Default\<rparr>)
         | first # rest \<Rightarrow>
            (let b = object first;
                 objs1 = (nodeObjects st1)
                           [b := (nodeObjects st1 ! b)
                                   \<lparr>color := lighterColor (originalColor (userData (nodeObjects st1 ! b)))\<rparr>];
                 objs2 = objs1[b := (objs1 ! b)\<lparr>scale := 13 / 10\<rparr>]
             in (acts @ [HighlightApply b],
                 st1\<lparr>hoveredNode := Some b, nodeObjects := objs2,
                     tooltip_name := ud_name (userData (objs2 ! b)),
                     tooltip_group := ud_group (userData (objs2 ! b)),
                     tooltip_display := True,
                     tooltip_left := clientX event + 15,
                     tooltip_top := clientY event - 10,
                     body_cursor := Pointer\<rparr>)))"

text \<open>A sequence of pointer-move events, each with the result of its ray cast.\<close>

fun mouse_moves :: "(nat \<Rightarrow> nat) \<Rightarrow> (intersection list \<times> mouse_event) list \<Rightarrow> app \<Rightarrow> action list \<times> app" where
  "mouse_moves lighterColor [] st = ([], st)"
| "mouse_moves lighterColor ((intersects, event) # evs) st =
     (let (acts1, st1) = onMouseMove lighterColor intersects event st;
          (acts2, st2) = mouse_moves lighterColor evs st1
      in (acts1 @ acts2, st2))"

text \<open>A body is in highlighted visual state when its colour or scale is not the recorded one.\<close>

definition highlighted :: "body \<Rightarrow> bool" where
  "highlighted b \<longleftrightarrow> color b \<noteq> originalColor (userData b) \<or> scale b \<noteq> originalScale (userData b)"


section \<open>Force vectors and the pairs of a repulsion pass\<close>

type_synonym vec = "jsnum \<times> jsnum \<times> jsnum"

text \<open>
  The repulsion between two nodes in the words of the specification: \<open>\<Delta>\<close> is the
  position of the first node minus the position of the second, \<open>d\<close> their Euclidean
  distance plus the softening constant 0.1, the magnitude is \<open>1000 / d\<^sup>2\<close> and the
  vector is \<open>(\<Delta> / d) * magnitude\<close>.
\<close>

definition repulsion_force :: "node \<Rightarrow> node \<Rightarrow> vec" where
  "repulsion_force a b =
     (let dx = js_sub (x a) (x b);
          dy = js_sub (y a) (y b);
          dz = js_sub (z a) (z b);
          d = js_add (js_sqrt (js_add (js_add (js_mul dx dx) (js_mul dy dy)) (js_mul dz dz)))
                     (Fin (1 / 10));
          magnitude = js_div (Fin 1000) (js_mul d d)
      in (js_mul (js_div dx d) magnitude, js_mul (js_div dy d) magnitude,
          js_mul (js_div dz d) magnitude))"

text \<open>
  The attraction along an edge in the words of the specification: \<open>\<Delta>\<close> is the vector
  from the source to the target, \<open>d\<close> its length (no softening), the magnitude is
  \<open>0.1 * d\<close> and the vector is \<open>(\<Delta> / d) * magnitude\<close>.
\<close>

definition attraction_force :: "node \<Rightarrow> node \<Rightarrow> vec" where
  "attraction_force src tgt =
     (let dx = js_sub (x tgt) (x src);
          dy = js_sub (y tgt) (y src);
          dz = js_sub (z tgt) (z src);
          d = js_sqrt (js_add (js_add (js_mul dx dx) (js_mul dy dy)) (js_mul dz dz));
          magnitude = js_mul (Fin (1 / 10)) d
      in (js_mul (js_div dx d) magnitude, js_mul (js_div dy d) magnitude,
          js_mul (js_div dz d) magnitude))"

text \<open>Adding a vector to the force accumulator of a node, and subtracting it.\<close>

definition add_force :: "vec \<Rightarrow> node \<Rightarrow> node" where
  "add_force v n =
     (case v of (a, b, c) \<Rightarrow>
        n\<lparr>fx := js_add (fx n) a, fy := js_add (fy n) b, fz := js_add (fz n) c\<rparr>)"

definition sub_force :: "vec \<Rightarrow> node \<Rightarrow> node" where
  "sub_force v n =
     (case v of (a, b, c) \<Rightarrow>
        n\<lparr>fx := js_sub (fx n) a, fy := js_sub (fy n) b, fz := js_sub (fz n) c\<rparr>)"

definition same_pos :: "node \<Rightarrow> node \<Rightarrow> bool" where
  "same_pos a b \<longleftrightarrow> x a = x b \<and> y a = y b \<and> z a = z b"

text \<open>
  Node \<open>k\<close> after the inner loop for \<open>i\<close> has handled the pairs \<open>(i, j)\<close> with \<open>j < m\<close>.
\<close>

definition row_pairs :: "node list \<Rightarrow> nat \<Rightarrow> nat \<Rightarrow> nat \<Rightarrow> node" where
  "row_pairs ns i m k =
     (if k = i then
        fold (\<lambda>j. add_force (repulsion_force (ns ! i) (ns ! j))) [Suc i ..< m] (ns ! i)
      else if i < k \<and> k < m then sub_force (repulsion_force (ns ! i) (ns ! k)) (ns ! k)
      else ns ! k)"

text \<open>
  Node \<open>k\<close> after the pairs \<open>(i, k)\<close> with \<open>i < m\<close> have been handled, and after all
  pairs that contain \<open>k\<close> have been handled.
\<close>

definition lower_pairs :: "node list \<Rightarrow> nat \<Rightarrow> nat \<Rightarrow> node" where
  "lower_pairs ns m k =
     fold (\<lambda>i. sub_force (repulsion_force (ns ! i) (ns ! k))) [0 ..< m] (ns ! k)"

definition all_pairs :: "node list \<Rightarrow> nat \<Rightarrow> node" where
  "all_pairs ns k =
     fold (\<lambda>j. add_force (repulsion_force (ns ! k) (ns ! j))) [Suc k ..< length ns]
       (lower_pairs ns k k)"


section \<open>Well-formed graphs and the relaxation step\<close>

text \<open>An edge whose two indices refer to nodes of an array of length \<open>n\<close>.\<close>

definition in_range :: "nat \<Rightarrow> edge \<Rightarrow> bool" where
  "in_range n e \<longleftrightarrow> 0 \<le> source e \<and> source e < int n \<and> 0 \<le> target e \<and> target e < int n"

definition edges_in_range :: "'a graph_scheme \<Rightarrow> bool" where
  "edges_in_range g \<longleftrightarrow> list_all (in_range (length (nodes g))) (edges g)"

text \<open>
  The passes of one relaxation iteration in the words of the specification, written
  without reference to the iteration order of the code.

  Pairwise repulsion: every unordered pair of distinct nodes contributes its repulsion
  vector once, added to the accumulator of the first node of the pair and subtracted from
  the accumulator of the second. Node \<open>k\<close> is the second node of the pairs \<open>(i, k)\<close> with
  \<open>i < k\<close> and the first node of the pairs \<open>(k, j)\<close> with \<open>k < j\<close>, which is what
  \<open>all_pairs\<close> collects; all vectors are computed from the positions before the pass.
\<close>

definition spec_repulsion :: "node list \<Rightarrow> node list" where
  "spec_repulsion ns = map (all_pairs ns) [0 ..< length ns]"

text \<open>
  Edge attraction: for every edge in turn, its attraction vector is added to the
  accumulator of the source and then subtracted from the accumulator of the target.
\<close>

definition spec_attract :: "edge \<Rightarrow> node list \<Rightarrow> node list" where
  "spec_attract e ns =
     (let s = nat (source e);
          t = nat (target e);
          v = attraction_force (ns ! s) (ns ! t);
          ns1 = ns[s := add_force v (ns ! s)]
      in ns1[t := sub_force v (ns1 ! t)])"

definition spec_attraction :: "edge list \<Rightarrow> node list \<Rightarrow> node list" where
  "spec_attraction es ns = fold spec_attract es ns"

text \<open>
  One relaxation iteration: reset every force accumulator to zero, pairwise repulsion,
  edge attraction, then for every node \<open>velocity = (velocity + force) * 0.9\<close> followed by
  \<open>position += velocity\<close>.
\<close>

definition relaxation_step :: "'a graph_scheme \<Rightarrow> 'a graph_scheme" where
  "relaxation_step g =
     (let ns1 = map (\<lambda>n. n\<lparr>fx := Fin 0, fy := Fin 0, fz := Fin 0\<rparr>) (nodes g);
          ns2 = spec_repulsion ns1;
          ns3 = spec_attraction (edges g) ns2
      in g\<lparr>nodes :=
            map (\<lambda>n. n\<lparr>vx := js_mul (js_add (vx n) (fx n)) (Fin (9 / 10)),
                       vy := js_mul (js_add (vy n) (fy n)) (Fin (9 / 10)),
                       vz := js_mul (js_add (vz n) (fz n)) (Fin (9 / 10)),
                       x := js_add (x n) (js_mul (js_add (vx n) (fx n)) (Fin (9 / 10))),
                       y := js_add (y n) (js_mul (js_add (vy n) (fy n)) (Fin (9 / 10))),
                       z := js_add (z n) (js_mul (js_add (vz n) (fz n)) (Fin (9 / 10)))\<rparr>)
              ns3\<rparr>)"


text \<open>The fields of a node that identify it: identity, name and group.\<close>

definition ident :: "node \<Rightarrow> nat \<times> string \<times> nat" where
  "ident n = (node_id n, name n, group n)"


text \<open>The node array after the first loop of \<open>loadNetworkData\<close>.\<close>

definition initial_nodes :: "(nat \<Rightarrow> real) \<Rightarrow> dataset \<Rightarrow> node list" where
  "initial_nodes rnd data = map (\<lambda>(i, r). init_node rnd i r) (enumerate 0 (data_nodes data))"


section \<open>The bodies under the hover handler\<close>

text \<open>What the revert block and the highlight block of \<open>onMouseMove\<close> make of a body.\<close>

definition revert_body :: "body \<Rightarrow> body" where
  "revert_body b = b\<lparr>color := originalColor (userData b), scale := originalScale (userData b)\<rparr>"

definition highlight_body :: "(nat \<Rightarrow> nat) \<Rightarrow> body \<Rightarrow> body" where
  "highlight_body lighterColor b =
     b\<lparr>color := lighterColor (originalColor (userData b)), scale := 13 / 10\<rparr>"

text \<open>
  The bodies \<open>objs0\<close> with the hovered one, if there is one, highlighted and all others
  as they are in \<open>objs0\<close>.
\<close>

definition hover_view :: "(nat \<Rightarrow> nat) \<Rightarrow> body list \<Rightarrow> nat option \<Rightarrow> body list" where
  "hover_view lighterColor objs0 hov =
     (case hov of
        None \<Rightarrow> objs0
      | Some h \<Rightarrow> objs0[h := highlight_body lighterColor (objs0 ! h)])"

text \<open>The body that \<open>onMouseMove\<close> takes from the result of the ray cast.\<close>

definition pick :: "intersection list \<Rightarrow> nat option" where
  "pick intersects = (case intersects of [] \<Rightarrow> None | first # rest \<Rightarrow> Some (object first))"

text \<open>The hits of \<open>intersectObjects\<close> before they are sorted.\<close>

definition hit_list :: "(body \<Rightarrow> real option) \<Rightarrow> body list \<Rightarrow> intersection list" where
  "hit_list hit objs =
     concat (map (\<lambda>i. case hit (objs ! i) of
                          None \<Rightarrow> []
                        | Some t \<Rightarrow> [\<lparr>distance = t, object = i\<rparr>])
                 [0 ..< length objs])"


section \<open>The net force\<close>

text \<open>The sum over all nodes of the force accumulators, component by component.\<close>

definition net_force :: "node list \<Rightarrow> vec" where
  "net_force ns =
     (foldr js_add (map fx ns) (Fin 0), foldr js_add (map fy ns) (Fin 0),
      foldr js_add (map fz ns) (Fin 0))"

text \<open>
  The node array after the reset, the repulsion pass and the attraction pass of one
  iteration, before the positions are updated.
\<close>

definition force_passes :: "'a graph_scheme \<Rightarrow> outcome \<times> node list" where
  "force_passes g = attraction (edges g) (repulsion (map reset_force (nodes g)))"


text \<open>The value of a finite number; the other numbers are sent to 0.\<close>

fun real_of :: "jsnum \<Rightarrow> real" where
  "real_of (Fin a) = a"
| "real_of b = 0"

text \<open>Vectors, positions and force accumulators all of whose components are finite.\<close>

definition fin_vec :: "vec \<Rightarrow> bool" where
  "fin_vec v \<longleftrightarrow> (case v of (a, b, c) \<Rightarrow> is_finite a \<and> is_finite b \<and> is_finite c)"

definition fin_pos :: "node \<Rightarrow> bool" where
  "fin_pos n \<longleftrightarrow> is_finite (x n) \<and> is_finite (y n) \<and> is_finite (z n)"

definition fin_force :: "node \<Rightarrow> bool" where
  "fin_force n \<longleftrightarrow> is_finite (fx n) \<and> is_finite (fy n) \<and> is_finite (fz n)"

text \<open>All force accumulators are finite and their sum is zero in every component.\<close>

definition balanced :: "node list \<Rightarrow> bool" where
  "balanced ns \<longleftrightarrow>
     list_all fin_force ns \<and>
     sum_list (map (\<lambda>n. real_of (fx n)) ns) = 0 \<and>
     sum_list (map (\<lambda>n. real_of (fy n)) ns) = 0 \<and>
     sum_list (map (\<lambda>n. real_of (fz n)) ns) = 0"

text \<open>
  What the force passes keep: the nodes differ from \<open>ns0\<close> in their force accumulators
  only, and these are balanced.
\<close>

definition passes_inv :: "node list \<Rightarrow> node list \<Rightarrow> bool" where
  "passes_inv ns0 ns \<longleftrightarrow> map reset_force ns = map reset_force ns0 \<and> balanced ns"


section \<open>Example inputs\<close>

text \<open>A graph of one node with an edge from the node to itself.\<close>

definition lone_node :: node where
  "lone_node =
     \<lparr>node_id = 0, name = ''A'', group = 0, x = Fin 3, y = Fin (- 7), z = Fin 12,
      vx = Fin 0, vy = Fin 0, vz = Fin 0, fx = Fin 0, fy = Fin 0, fz = Fin 0\<rparr>"

definition self_edge :: edge where
  "self_edge = \<lparr>source = 0, target = 0\<rparr>"

definition self_loop_graph :: graph where
  "self_loop_graph = \<lparr>nodes = [lone_node], edges = [self_edge]\<rparr>"

definition nan_node :: "node \<Rightarrow> node" where
  "nan_node n =
     n\<lparr>x := NaN, y := NaN, z := NaN, vx := NaN, vy := NaN, vz := NaN,
       fx := NaN, fy := NaN, fz := NaN\<rparr>"


text \<open>Two nodes at distance 1 on the x axis, joined by an edge.\<close>

definition node_a :: node where
  "node_a =
     \<lparr>node_id = 0, name = ''A'', group = 0, x = Fin 1, y = Fin 0, z = Fin 0,
      vx = Fin 0, vy = Fin 0, vz = Fin 0, fx = Fin 0, fy = Fin 0, fz = Fin 0\<rparr>"

definition node_b :: node where
  "node_b =
     \<lparr>node_id = 1, name = ''B'', group = 1, x = Fin 0, y = Fin 0, z = Fin 0,
      vx = Fin 0, vy = Fin 0, vz = Fin 0, fx = Fin 0, fy = Fin 0, fz = Fin 0\<rparr>"

definition two_node_graph :: graph where
  "two_node_graph = \<lparr>nodes = [node_a, node_b], edges = [\<lparr>source = 0, target = 1\<rparr>]\<rparr>"


text \<open>
  A data set of one node whose only link points to index 5, and a random source that
  always returns 0.5.
\<close>

definition half_rnd :: "nat \<Rightarrow> real" where
  "half_rnd k = 1 / 2"

definition bad_edge :: edge where
  "bad_edge = \<lparr>source = 0, target = 5\<rparr>"

definition bad_graph :: graph where
  "bad_graph = \<lparr>nodes = [lone_node], edges = [bad_edge]\<rparr>"

definition bad_data :: dataset where
  "bad_data = \<lparr>data_nodes = [\<lparr>raw_name = ''A'', raw_group = 0\<rparr>], links = [bad_edge]\<rparr>"


text \<open>
  Two bodies, a pointer event, a ray that meets body A at parameter 10 and body B at
  parameter 5, and white as the highlight colour.
\<close>

definition ray_hits :: "body \<Rightarrow> real option" where
  "ray_hits b =
     (if ud_name (userData b) = ''A'' then Some 10
      else if ud_name (userData b) = ''B'' then Some 5 else None)"

definition to_white :: "nat \<Rightarrow> nat" where
  "to_white c = 0xffffff"

definition example_app :: app where
  "example_app = initial_app\<lparr>nodeObjects := map create_sphere [node_a, node_b]\<rparr>"

definition pointer :: mouse_event where
  "pointer = \<lparr>clientX = 100, clientY = 80\<rparr>"


section \<open>Properties of the number operations\<close>

lemma js_add_NaN_right [simp]: "js_add a NaN = NaN"
  by (cases a) simp_all

lemma js_mul_NaN_right [simp]: "js_mul a NaN = NaN"
  by (cases a) simp_all

lemma js_div_NaN_right [simp]: "js_div a NaN = NaN"
  by (cases a) simp_all

lemma js_sub_NaN [simp]: "js_sub a NaN = NaN" "js_sub NaN b = NaN"
  by (simp_all add: js_sub_def)

lemma js_sub_self: "js_sub a a = (if is_finite a then Fin 0 else NaN)"
  by (cases a) (simp_all add: js_sub_def)

section \<open>The unguarded division of the attraction step\<close>

text \<open>
  Claim C1. The attraction step does not guard the zero-distance case: for an edge from a
  node to itself the distance is 0, the quotient \<open>dx / distance\<close> is \<open>0 / 0\<close>, and the
  three force contributions written to the node are NaN.
\<close>

theorem attract_self_edge_NaN:
  "attract self_edge [lone_node] = (Completed, [lone_node\<lparr>fx := NaN, fy := NaN, fz := NaN\<rparr>])"
  by (simp add: attract_def js_index_def lone_node_def self_edge_def js_sub_def attractionStrength_def Let_def)

lemma attract_self_any:
  "attract self_edge [n] = (Completed, [n\<lparr>fx := NaN, fy := NaN, fz := NaN\<rparr>])"
  by (cases "is_finite (x n)"; cases "is_finite (y n)"; cases "is_finite (z n)")
     (simp_all add: attract_def js_index_def self_edge_def js_sub_self attractionStrength_def Let_def)

lemma repulsion_single: "repulsion [n] = [n]"
  by (simp add: repulsion_def)

lemma nan_node_idem: "nan_node (nan_node n) = nan_node n"
  by (simp add: nan_node_def)

lemma iteration_self_loop:
  assumes "nodes g = [n]" and "edges g = [self_edge]"
  shows "iteration g = (Completed, g\<lparr>nodes := [nan_node n]\<rparr>)"
  using assms
  by (simp add: iteration_def repulsion_single attract_self_any integrate_def Let_def
      damping_def nan_node_def reset_force_def)

lemma layout_loop_self_loop:
  "nodes g = [n] \<Longrightarrow> edges g = [self_edge] \<Longrightarrow> iter < iterations \<Longrightarrow>
   layout_loop iter g = (Completed, g\<lparr>nodes := [nan_node n]\<rparr>)"
proof (induction iter g arbitrary: n rule: layout_loop.induct)
  case (1 iter g)
  let ?g1 = "g\<lparr>nodes := [nan_node n]\<rparr>"
  have it: "iteration g = (Completed, ?g1)"
    using "1.prems"(1,2) by (rule iteration_self_loop)
  have n1: "nodes ?g1 = [nan_node n]" and e1: "edges ?g1 = [self_edge]"
    using "1.prems"(2) by simp_all
  show ?case
  proof (cases "iter + 1 < iterations")
    case True
    from "1.IH"[OF "1.prems"(3) it[symmetric] refl n1 e1 True]
    have "layout_loop (iter + 1) ?g1 = (Completed, ?g1)"
      by (simp add: nan_node_idem)
    with it "1.prems"(3) show ?thesis
      by (subst layout_loop.simps) simp
  next
    case False
    then have "layout_loop (iter + 1) ?g1 = (Completed, ?g1)"
      by (subst layout_loop.simps) simp
    with it "1.prems"(3) show ?thesis
      by (subst layout_loop.simps) simp
  qed
qed

text \<open>
  Claim C2. On the graph of one node with a self-edge the layout runs through its 300
  iterations and leaves every coordinate of the node NaN (and its velocity and force).
\<close>

theorem layout_self_loop_NaN:
  "applyForceLayout self_loop_graph =
     (Completed,
      \<lparr>nodes = [lone_node\<lparr>x := NaN, y := NaN, z := NaN, vx := NaN, vy := NaN, vz := NaN,
                          fx := NaN, fy := NaN, fz := NaN\<rparr>],
       edges = [self_edge]\<rparr>)"
proof -
  have "nodes self_loop_graph = [lone_node]" and "edges self_loop_graph = [self_edge]"
    by (simp_all add: self_loop_graph_def)
  then have "layout_loop 0 self_loop_graph
      = (Completed, self_loop_graph\<lparr>nodes := [nan_node lone_node]\<rparr>)"
    by (rule layout_loop_self_loop) (simp add: iterations_def)
  then show ?thesis
    by (simp add: applyForceLayout_def nan_node_def self_loop_graph_def)
qed


section \<open>The repulsion pass\<close>

lemma repel_eq:
  assumes "i \<noteq> j" "i < length ns" "j < length ns"
  shows "repel i j ns =
           ns[i := add_force (repulsion_force (ns ! i) (ns ! j)) (ns ! i),
              j := sub_force (repulsion_force (ns ! i) (ns ! j)) (ns ! j)]"
  using assms
  by (simp add: repel_def add_force_def sub_force_def repulsion_force_def Let_def
      repulsionStrength_def)

lemma same_pos_refl [simp]: "same_pos a a"
  by (simp add: same_pos_def)

lemma same_pos_add_force [simp]: "same_pos (add_force v n) m = same_pos n m"
  by (cases v) (simp add: same_pos_def add_force_def)

lemma same_pos_sub_force [simp]: "same_pos (sub_force v n) m = same_pos n m"
  by (cases v) (simp add: same_pos_def sub_force_def)

lemma same_pos_fold_add [simp]:
  "same_pos (fold (\<lambda>j. add_force (g j)) js n) m = same_pos n m"
  by (induction js arbitrary: n) simp_all

lemma same_pos_fold_sub [simp]:
  "same_pos (fold (\<lambda>j. sub_force (g j)) js n) m = same_pos n m"
  by (induction js arbitrary: n) simp_all

lemma repulsion_force_cong:
  "same_pos a a' \<Longrightarrow> same_pos b b' \<Longrightarrow> repulsion_force a b = repulsion_force a' b'"
  by (simp add: same_pos_def repulsion_force_def)

lemma row_pairs_0: "Suc i \<ge> m \<Longrightarrow> row_pairs ns i m k = ns ! k"
  by (simp add: row_pairs_def)

lemma row_pairs_Suc:
  assumes "i < m"
  shows "row_pairs ns i (Suc m) k =
           (if k = i then add_force (repulsion_force (ns ! i) (ns ! m)) (row_pairs ns i m i)
            else if k = m then sub_force (repulsion_force (ns ! i) (ns ! m)) (ns ! m)
            else row_pairs ns i m k)"
  using assms by (auto simp: row_pairs_def)

lemma same_pos_row_pairs [simp]: "same_pos (row_pairs ns i m k) n = same_pos (ns ! k) n"
  by (simp add: row_pairs_def)

lemma inner_loop:
  assumes "i < length ns" "m \<le> length ns"
  shows "fold (\<lambda>j. repel i j) [Suc i ..< m] ns = map (row_pairs ns i m) [0 ..< length ns]"
  using assms(2)
proof (induction m)
  case 0
  then show ?case by (auto simp: row_pairs_0 intro!: nth_equalityI)
next
  case (Suc m)
  show ?case
  proof (cases "i < m")
    case False
    then show ?thesis by (auto simp: row_pairs_0 intro!: nth_equalityI)
  next
    case True
    let ?ms = "map (row_pairs ns i m) [0 ..< length ns]"
    have m: "m < length ns" "i \<noteq> m" using Suc.prems True by auto
    have at_m: "row_pairs ns i m m = ns ! m" by (simp add: row_pairs_def)
    have rf: "repulsion_force (?ms ! i) (?ms ! m) = repulsion_force (ns ! i) (ns ! m)"
      using assms(1) m by (intro repulsion_force_cong) simp_all
    have "fold (\<lambda>j. repel i j) [Suc i ..< Suc m] ns = repel i m ?ms"
      using True Suc by simp
    also have "\<dots> = ?ms[i := add_force (repulsion_force (ns ! i) (ns ! m)) (?ms ! i),
                        m := sub_force (repulsion_force (ns ! i) (ns ! m)) (?ms ! m)]"
      using m assms(1) by (simp add: repel_eq rf del: nth_map)
    also have "\<dots> = map (row_pairs ns i (Suc m)) [0 ..< length ns]"
      using m assms(1) True
      by (auto intro!: nth_equalityI simp: nth_list_update row_pairs_Suc at_m)
    finally show ?thesis .
  qed
qed

lemma same_pos_lower_pairs [simp]: "same_pos (lower_pairs ns m k) n = same_pos (ns ! k) n"
  by (simp add: lower_pairs_def)

lemma same_pos_all_pairs [simp]: "same_pos (all_pairs ns k) n = same_pos (ns ! k) n"
  by (simp add: all_pairs_def)

lemma same_pos_sym: "same_pos a b \<Longrightarrow> same_pos b a"
  by (simp add: same_pos_def)

lemma lower_pairs_Suc:
  "lower_pairs ns (Suc m) k = sub_force (repulsion_force (ns ! m) (ns ! k)) (lower_pairs ns m k)"
  by (simp add: lower_pairs_def)

lemma repulsion_force_lower_pairs:
  "repulsion_force (lower_pairs ns m a) (lower_pairs ns m' b) = repulsion_force (ns ! a) (ns ! b)"
  by (rule repulsion_force_cong) simp_all

lemma outer_loop:
  assumes "m \<le> length ns"
  shows "fold (\<lambda>i ns'. fold (\<lambda>j. repel i j) [Suc i ..< length ns'] ns') [0 ..< m] ns =
           map (\<lambda>k. if k < m then all_pairs ns k else lower_pairs ns m k) [0 ..< length ns]"
  using assms
proof (induction m)
  case 0
  then show ?case by (auto simp: lower_pairs_def intro!: nth_equalityI)
next
  case (Suc m)
  let ?ms = "map (\<lambda>k. if k < m then all_pairs ns k else lower_pairs ns m k) [0 ..< length ns]"
  have m: "m < length ns" using Suc.prems by simp
  have at: "?ms ! k = (if k < m then all_pairs ns k else lower_pairs ns m k)"
    if "k < length ns" for k
    using that by simp
  have rf: "repulsion_force (?ms ! a) (?ms ! b) = repulsion_force (ns ! a) (ns ! b)"
    if "a < length ns" "b < length ns" for a b
    using that by (intro repulsion_force_cong) simp_all
  have row: "row_pairs ?ms m (length ns) m = all_pairs ns m"
  proof -
    have "fold (\<lambda>j. add_force (repulsion_force (?ms ! m) (?ms ! j))) [Suc m ..< length ns] (?ms ! m)
        = fold (\<lambda>j. add_force (repulsion_force (ns ! m) (ns ! j))) [Suc m ..< length ns] (?ms ! m)"
      by (rule fold_cong) (simp_all add: rf m del: nth_map)
    then show ?thesis by (simp add: row_pairs_def all_pairs_def at m del: nth_map)
  qed
  have "fold (\<lambda>i ns'. fold (\<lambda>j. repel i j) [Suc i ..< length ns'] ns') [0 ..< Suc m] ns
      = fold (\<lambda>j. repel m j) [Suc m ..< length ?ms] ?ms"
    using Suc by simp
  also have "\<dots> = map (row_pairs ?ms m (length ?ms)) [0 ..< length ?ms]"
    by (rule inner_loop) (simp_all add: m)
  also have "\<dots> = map (\<lambda>k. if k < Suc m then all_pairs ns k else lower_pairs ns (Suc m) k)
                       [0 ..< length ns]"
  proof (rule nth_equalityI)
    show "length (map (row_pairs ?ms m (length ?ms)) [0 ..< length ?ms]) =
          length (map (\<lambda>k. if k < Suc m then all_pairs ns k else lower_pairs ns (Suc m) k)
                    [0 ..< length ns])"
      by simp
  next
    fix k
    assume "k < length (map (row_pairs ?ms m (length ?ms)) [0 ..< length ?ms])"
    then have k: "k < length ns" by simp
    consider "k = m" | "k < m" | "m < k" by linarith
    then have "row_pairs ?ms m (length ns) k =
               (if k < Suc m then all_pairs ns k else lower_pairs ns (Suc m) k)"
    proof cases
      case 1
      then show ?thesis by (simp add: row)
    next
      case 2
      then show ?thesis using k by (simp add: row_pairs_def)
    next
      case 3
      then show ?thesis
        using k m
        by (simp add: row_pairs_def lower_pairs_Suc repulsion_force_lower_pairs)
    qed
    then show "map (row_pairs ?ms m (length ?ms)) [0 ..< length ?ms] ! k =
               map (\<lambda>k. if k < Suc m then all_pairs ns k else lower_pairs ns (Suc m) k)
                 [0 ..< length ns] ! k"
      using k by simp
  qed
  finally show ?case .
qed

lemma repulsion_eq_all_pairs: "repulsion ns = map (all_pairs ns) [0 ..< length ns]"
proof -
  have "repulsion ns =
      map (\<lambda>k. if k < length ns then all_pairs ns k else lower_pairs ns (length ns) k)
        [0 ..< length ns]"
    unfolding repulsion_def by (rule outer_loop) simp
  then show ?thesis by simp
qed

lemma length_repulsion [simp]: "length (repulsion ns) = length ns"
  by (simp add: repulsion_eq_all_pairs)

text \<open>
  Claim C6. The repulsion pass keeps the number of nodes, and node \<open>k\<close> leaves it as it
  entered it, but for its force accumulator: for every \<open>i < k\<close> the vector of the pair
  \<open>(i, k)\<close> has been subtracted from it, and then for every \<open>j > k\<close> the vector of the
  pair \<open>(k, j)\<close> has been added to it, in this order, where the vector of a pair is
  \<open>repulsion_force\<close> of the positions of its two nodes. So every unordered pair of
  distinct nodes contributes once, added to the node of lower index and subtracted from
  the other.
\<close>

theorem repulsion_pairs:
  "length (repulsion ns) = length ns \<and>
   (\<forall>k < length ns.
      repulsion ns ! k =
        fold (\<lambda>j. add_force (repulsion_force (ns ! k) (ns ! j))) [Suc k ..< length ns]
          (fold (\<lambda>i. sub_force (repulsion_force (ns ! i) (ns ! k))) [0 ..< k] (ns ! k)))"
  by (simp add: repulsion_eq_all_pairs all_pairs_def lower_pairs_def)

theorem repulsion_pairs_witness:
  "length (repulsion [node_a, node_b]) = 2 \<and>
   repulsion [node_a, node_b] ! 0 = node_a\<lparr>fx := Fin (1000000 / 1331)\<rparr> \<and>
   repulsion [node_a, node_b] ! 1 = node_b\<lparr>fx := Fin (- (1000000 / 1331))\<rparr>"
  using repulsion_pairs [of "[node_a, node_b]"]
  by (simp add: repulsion_force_def add_force_def sub_force_def node_a_def node_b_def
      js_sub_def Let_def)

section \<open>The iterations of the layout\<close>

lemma length_attract [simp]: "length (snd (attract e ns)) = length ns"
  by (simp add: attract_def Let_def split: option.splits)

lemma attract_in_range: "in_range (length ns) e \<Longrightarrow> fst (attract e ns) = Completed"
  by (simp add: attract_def in_range_def js_index_def Let_def)

lemma attract_out_of_range:
  "\<not> in_range (length ns) e \<Longrightarrow> attract e ns = (Threw TypeError, ns)"
  by (auto simp: attract_def in_range_def js_index_def Let_def)

lemma length_attraction [simp]: "length (snd (attraction es ns)) = length ns"
proof (induction es arbitrary: ns)
  case Nil
  then show ?case by simp
next
  case (Cons e es)
  show ?case
  proof (cases "attract e ns")
    case (Pair r ns')
    then have "length ns' = length ns"
      using length_attract[of e ns] by simp
    with Pair Cons.IH[of ns'] show ?thesis
      by (cases r) simp_all
  qed
qed

lemma attraction_in_range:
  "list_all (in_range (length ns)) es \<Longrightarrow> fst (attraction es ns) = Completed"
proof (induction es arbitrary: ns)
  case Nil
  then show ?case by simp
next
  case (Cons e es)
  obtain ns' where a: "attract e ns = (Completed, ns')"
    using attract_in_range[of ns e] Cons.prems by (cases "attract e ns") auto
  then have "length ns' = length ns"
    using length_attract[of e ns] by simp
  with Cons a show ?case by simp
qed

lemma attraction_out_of_range:
  "\<not> list_all (in_range (length ns)) es \<Longrightarrow> fst (attraction es ns) = Threw TypeError"
proof (induction es arbitrary: ns)
  case Nil
  then show ?case by simp
next
  case (Cons e es)
  show ?case
  proof (cases "in_range (length ns) e")
    case False
    then show ?thesis by (simp add: attract_out_of_range)
  next
    case True
    obtain ns' where a: "attract e ns = (Completed, ns')"
      using attract_in_range[OF True] by (cases "attract e ns") auto
    then have "length ns' = length ns"
      using length_attract[of e ns] by simp
    with Cons True a show ?thesis by simp
  qed
qed

lemma length_spec_attract [simp]: "length (spec_attract e ns) = length ns"
  by (simp add: spec_attract_def Let_def)

lemma length_spec_attraction [simp]: "length (spec_attraction es ns) = length ns"
  unfolding spec_attraction_def by (induction es arbitrary: ns) simp_all

lemma length_spec_repulsion [simp]: "length (spec_repulsion ns) = length ns"
  by (simp add: spec_repulsion_def)

lemma repulsion_spec: "repulsion ns = spec_repulsion ns"
  by (simp add: repulsion_eq_all_pairs spec_repulsion_def)

lemma attract_spec:
  assumes "in_range (length ns) e"
  shows "attract e ns = (Completed, spec_attract e ns)"
proof -
  have s: "nat (source e) < length ns" and t: "nat (target e) < length ns"
    using assms by (simp_all add: in_range_def nat_less_iff)
  have i: "js_index ns (source e) = Some (ns ! nat (source e))"
    "js_index ns (target e) = Some (ns ! nat (target e))"
    using assms by (simp_all add: js_index_def in_range_def)
  show ?thesis
    unfolding attract_def i option.case spec_attract_def Let_def attraction_force_def
      attractionStrength_def
    using s t
    by (cases "nat (source e) = nat (target e)")
       (simp_all add: add_force_def sub_force_def)
qed

lemma attraction_spec:
  "list_all (in_range (length ns)) es \<Longrightarrow> attraction es ns = (Completed, spec_attraction es ns)"
proof (induction es arbitrary: ns)
  case Nil
  then show ?case by (simp add: spec_attraction_def)
next
  case (Cons e es)
  have a: "attract e ns = (Completed, spec_attract e ns)"
    using Cons.prems by (intro attract_spec) simp
  have "attraction es (spec_attract e ns) = (Completed, spec_attraction es (spec_attract e ns))"
    using Cons.prems by (intro Cons.IH) simp
  with a show ?case by (simp add: spec_attraction_def)
qed

lemma iteration_in_range:
  assumes "edges_in_range g"
  shows "iteration g = (Completed, relaxation_step g)"
proof -
  let ?ns2 = "repulsion (map reset_force (nodes g))"
  have "attraction (edges g) ?ns2 = (Completed, spec_attraction (edges g) ?ns2)"
    using assms by (intro attraction_spec) (simp add: edges_in_range_def)
  then show ?thesis
    by (simp add: iteration_def relaxation_step_def Let_def integrate_def damping_def
        reset_force_def repulsion_spec cong: map_cong)
qed

lemma relaxation_step_frame [simp]:
  "edges (relaxation_step g) = edges g" "length (nodes (relaxation_step g)) = length (nodes g)"
  by (simp_all add: relaxation_step_def Let_def)

lemma edges_in_range_step: "edges_in_range g \<Longrightarrow> edges_in_range (relaxation_step g)"
  by (simp add: edges_in_range_def)

lemma layout_loop_in_range:
  "edges_in_range g \<Longrightarrow> iter \<le> iterations \<Longrightarrow>
   layout_loop iter g = (Completed, (relaxation_step ^^ (iterations - iter)) g)"
proof (induction iter g rule: layout_loop.induct)
  case (1 iter g)
  show ?case
  proof (cases "iter < iterations")
    case False
    with "1.prems" show ?thesis by (subst layout_loop.simps) simp
  next
    case True
    have it: "iteration g = (Completed, relaxation_step g)"
      using "1.prems"(1) by (rule iteration_in_range)
    have "layout_loop (iter + 1) (relaxation_step g)
        = (Completed, (relaxation_step ^^ (iterations - (iter + 1))) (relaxation_step g))"
      using True "1.prems"(1) by (intro "1.IH"[OF True it[symmetric] refl] edges_in_range_step) simp_all
    moreover have "iterations - iter = Suc (iterations - (iter + 1))"
      using True by simp
    ultimately show ?thesis
      using True it by (subst layout_loop.simps) (simp add: funpow_swap1)
  qed
qed


section \<open>What the layout leaves unchanged\<close>

lemma reset_force_update [simp]:
  "reset_force (n\<lparr>fx := a\<rparr>) = reset_force n"
  "reset_force (n\<lparr>fy := a\<rparr>) = reset_force n"
  "reset_force (n\<lparr>fz := a\<rparr>) = reset_force n"
  by (simp_all add: reset_force_def)

lemma reset_force_idem [simp]: "reset_force (reset_force n) = reset_force n"
  by (simp add: reset_force_def)

lemma map_update_same:
  assumes "p v = p (ns ! i)"
  shows "map p (ns[i := v]) = map p ns"
proof (cases "i < length ns")
  case True
  then show ?thesis using assms by (simp add: map_update list_update_same_conv)
next
  case False
  then show ?thesis by (simp add: not_less list_update_beyond)
qed

lemma reset_force_list_update:
  "map reset_force (ns[i := (ns ! i)\<lparr>fx := a\<rparr>]) = map reset_force ns"
  "map reset_force (ns[i := (ns ! i)\<lparr>fy := a\<rparr>]) = map reset_force ns"
  "map reset_force (ns[i := (ns ! i)\<lparr>fz := a\<rparr>]) = map reset_force ns"
  by (simp_all add: map_update_same)

lemma reset_repel: "map reset_force (repel i j ns) = map reset_force ns"
  unfolding repel_def Let_def by (simp only: reset_force_list_update)

lemma reset_fold:
  assumes "\<And>i ms. map reset_force (f i ms) = map reset_force ms"
  shows "map reset_force (fold f js ns) = map reset_force ns"
  by (induction js arbitrary: ns) (simp_all add: assms)

lemma reset_repulsion: "map reset_force (repulsion ns) = map reset_force ns"
  unfolding repulsion_def by (intro reset_fold reset_repel)

lemma reset_attract: "map reset_force (snd (attract e ns)) = map reset_force ns"
proof (cases "js_index ns (target e)")
  case None
  then show ?thesis by (simp add: attract_def)
next
  case tgt: (Some t)
  show ?thesis
  proof (cases "js_index ns (source e)")
    case None
    then show ?thesis by (simp add: attract_def tgt)
  next
    case (Some s)
    show ?thesis
      unfolding attract_def Let_def tgt Some option.case snd_conv
      by (simp only: reset_force_list_update)
  qed
qed

lemma reset_attraction: "map reset_force (snd (attraction es ns)) = map reset_force ns"
proof (induction es arbitrary: ns)
  case Nil
  then show ?case by simp
next
  case (Cons e es)
  show ?case
  proof (cases "attract e ns")
    case (Pair r ns')
    then have "map reset_force ns' = map reset_force ns"
      using reset_attract[of e ns] by simp
    with Pair Cons.IH[of ns'] show ?thesis
      by (cases r) simp_all
  qed
qed

lemma ident_reset_force [simp]: "ident (reset_force n) = ident n"
  by (simp add: ident_def reset_force_def)

lemma ident_integrate [simp]: "ident (integrate n) = ident n"
  by (simp add: ident_def integrate_def Let_def)

lemma ident_of_reset:
  assumes "map reset_force ns' = map reset_force ns"
  shows "map ident ns' = map ident ns"
proof -
  have "map ident ns' = map ident (map reset_force ns')" by (simp add: comp_def)
  also have "\<dots> = map ident (map reset_force ns)" by (simp only: assms)
  also have "\<dots> = map ident ns" by (simp add: comp_def)
  finally show ?thesis .
qed

lemma force_passes_reset:
  "map reset_force (snd (attraction es (repulsion (map reset_force ns)))) = map reset_force ns"
  by (simp add: reset_attraction reset_repulsion comp_def)

lemma iteration_frame:
  "snd (iteration g) = g\<lparr>nodes := nodes (snd (iteration g))\<rparr>"
  "map ident (nodes (snd (iteration g))) = map ident (nodes g)"
proof -
  obtain r ns3 where a: "attraction (edges g) (repulsion (map reset_force (nodes g))) = (r, ns3)"
    by (cases "attraction (edges g) (repulsion (map reset_force (nodes g)))")
  have "map reset_force ns3 = map reset_force (nodes g)"
    using force_passes_reset[of "edges g" "nodes g"] a by simp
  then have idn: "map ident ns3 = map ident (nodes g)" by (rule ident_of_reset)
  show "snd (iteration g) = g\<lparr>nodes := nodes (snd (iteration g))\<rparr>"
    using a by (cases r) (simp_all add: iteration_def Let_def)
  show "map ident (nodes (snd (iteration g))) = map ident (nodes g)"
    using a idn by (cases r) (simp_all add: iteration_def Let_def comp_def)
qed

lemma layout_loop_frame:
  "snd (layout_loop iter g) = g\<lparr>nodes := nodes (snd (layout_loop iter g))\<rparr> \<and>
   map ident (nodes (snd (layout_loop iter g))) = map ident (nodes g)"
proof (induction iter g rule: layout_loop.induct)
  case (1 iter g)
  show ?case
  proof (cases "iter < iterations")
    case False
    then have "layout_loop iter g = (Completed, g)" by (subst layout_loop.simps) simp
    then show ?thesis by simp
  next
    case True
    obtain r g1 where it: "iteration g = (r, g1)" by (cases "iteration g")
    have g1: "g1 = g\<lparr>nodes := nodes g1\<rparr>" and id1: "map ident (nodes g1) = map ident (nodes g)"
      using iteration_frame[of g] it by simp_all
    show ?thesis
    proof (cases r)
      case (Threw err)
      then have "layout_loop iter g = (Threw err, g1)"
        using True it by (subst layout_loop.simps) simp
      with g1 id1 show ?thesis by simp
    next
      case Completed
      then have eq: "layout_loop iter g = layout_loop (iter + 1) g1"
        using True it by (subst layout_loop.simps) simp
      have "(r, g1) = iteration g" using it by simp
      from "1.IH"[OF True this Completed]
      have a: "snd (layout_loop (iter + 1) g1) = g1\<lparr>nodes := nodes (snd (layout_loop (iter + 1) g1))\<rparr>"
        and b: "map ident (nodes (snd (layout_loop (iter + 1) g1))) = map ident (nodes g1)" by simp_all
      have "snd (layout_loop (iter + 1) g1) = g\<lparr>nodes := nodes (snd (layout_loop (iter + 1) g1))\<rparr>"
        by (subst a, subst g1) simp
      with b id1 eq show ?thesis by simp
    qed
  qed
qed

text \<open>
  Claim C10. Whatever the graph and whether the layout returns or throws, the state it
  leaves has the edge sequence it started with, and the sequences of the identities,
  names and groups of its nodes are the ones it started with.
\<close>

theorem layout_frame:
  "edges (snd (applyForceLayout g)) = edges g \<and>
   map node_id (nodes (snd (applyForceLayout g))) = map node_id (nodes g) \<and>
   map name (nodes (snd (applyForceLayout g))) = map name (nodes g) \<and>
   map group (nodes (snd (applyForceLayout g))) = map group (nodes g)"
proof -
  let ?ns = "nodes (snd (applyForceLayout g))"
  have eq: "snd (applyForceLayout g) = g\<lparr>nodes := ?ns\<rparr>"
    and idn: "map ident ?ns = map ident (nodes g)"
    using layout_loop_frame[of 0 g] by (simp_all add: applyForceLayout_def)
  have "map (fst \<circ> ident) ?ns = map (fst \<circ> ident) (nodes g)"
    "map (fst \<circ> snd \<circ> ident) ?ns = map (fst \<circ> snd \<circ> ident) (nodes g)"
    "map (snd \<circ> snd \<circ> ident) ?ns = map (snd \<circ> snd \<circ> ident) (nodes g)"
    using idn by (metis map_map)+
  moreover have "edges (snd (applyForceLayout g)) = edges g"
    by (subst eq) simp
  ultimately show ?thesis
    by (simp add: comp_def ident_def)
qed

lemma iteration_out_of_range:
  assumes "\<not> edges_in_range g"
  shows "fst (iteration g) = Threw TypeError"
    and "map reset_force (nodes (snd (iteration g))) = map reset_force (nodes g)"
proof -
  obtain r ns3 where a: "attraction (edges g) (repulsion (map reset_force (nodes g))) = (r, ns3)"
    by (cases "attraction (edges g) (repulsion (map reset_force (nodes g)))")
  have "fst (attraction (edges g) (repulsion (map reset_force (nodes g)))) = Threw TypeError"
    using assms by (intro attraction_out_of_range) (simp add: edges_in_range_def)
  with a have r: "r = Threw TypeError" by simp
  have rs: "map reset_force ns3 = map reset_force (nodes g)"
    using force_passes_reset[of "edges g" "nodes g"] a by simp
  show "fst (iteration g) = Threw TypeError"
    using a r by (simp add: iteration_def Let_def)
  show "map reset_force (nodes (snd (iteration g))) = map reset_force (nodes g)"
    using a r rs by (simp add: iteration_def Let_def)
qed

lemma layout_out_of_range:
  assumes "\<not> edges_in_range g"
  shows "applyForceLayout g = iteration g"
proof -
  obtain r g1 where it: "iteration g = (r, g1)" by (cases "iteration g")
  then have "r = Threw TypeError"
    using iteration_out_of_range(1)[OF assms] by simp
  with it show ?thesis
    unfolding applyForceLayout_def by (subst layout_loop.simps) (simp add: iterations_def)
qed

section \<open>The 300 iterations\<close>

text \<open>
  Claim C7, as amended. On a graph whose edges are in range the layout returns normally,
  and its result is the relaxation step applied exactly 300 times to the graph: there
  is no convergence test and no other exit from the loop. The step is written in the
  words of the specification: it resets the forces, then adds and subtracts the
  repulsion vector of every pair of nodes, then the attraction vector of every edge,
  then sets \<open>velocity = (velocity + force) * 0.9\<close> and \<open>position += velocity\<close> for every
  node. On a graph with an edge out of range the layout throws a TypeError in its first
  iteration, before any velocity or position is written.
\<close>

theorem layout_300_steps:
  "(edges_in_range g \<longrightarrow> applyForceLayout g = (Completed, (relaxation_step ^^ 300) g)) \<and>
   (\<not> edges_in_range g \<longrightarrow>
      fst (applyForceLayout g) = Threw TypeError \<and>
      map reset_force (nodes (snd (applyForceLayout g))) = map reset_force (nodes g))"
proof (intro conjI impI)
  assume "edges_in_range g"
  then show "applyForceLayout g = (Completed, (relaxation_step ^^ 300) g)"
    using layout_loop_in_range[of g 0] by (simp add: applyForceLayout_def iterations_def)
next
  assume bad: "\<not> edges_in_range g"
  then show "fst (applyForceLayout g) = Threw TypeError"
    by (simp add: layout_out_of_range iteration_out_of_range(1))
  from bad show "map reset_force (nodes (snd (applyForceLayout g))) = map reset_force (nodes g)"
    by (simp add: layout_out_of_range iteration_out_of_range(2))
qed

theorem layout_300_steps_witness:
  "edges_in_range two_node_graph \<and>
   applyForceLayout two_node_graph = (Completed, (relaxation_step ^^ 300) two_node_graph) \<and>
   \<not> edges_in_range bad_graph \<and>
   fst (applyForceLayout bad_graph) = Threw TypeError"
proof -
  have h: "edges_in_range two_node_graph"
    by (simp add: edges_in_range_def in_range_def two_node_graph_def)
  have b: "\<not> edges_in_range bad_graph"
    by (simp add: edges_in_range_def in_range_def bad_graph_def bad_edge_def)
  show ?thesis
    using h b layout_300_steps [of two_node_graph] layout_300_steps [of bad_graph] by simp
qed

text \<open>
  The claim C7 as stated fails on the graph of one node whose only edge points to index
  5: the layout does not perform 300 iterations, it throws in the first one and leaves
  the node where it was.
\<close>

theorem layout_bad_edge_counterexample:
  "applyForceLayout bad_graph = (Threw TypeError, bad_graph) \<and>
   applyForceLayout bad_graph \<noteq> (Completed, (relaxation_step ^^ 300) bad_graph)"
proof -
  have bad: "\<not> edges_in_range bad_graph"
    by (simp add: edges_in_range_def in_range_def bad_graph_def bad_edge_def)
  have "applyForceLayout bad_graph = iteration bad_graph"
    by (rule layout_out_of_range[OF bad])
  also have "\<dots> = (Threw TypeError, bad_graph)"
    by (simp add: iteration_def bad_graph_def bad_edge_def lone_node_def repulsion_def
        attract_def js_index_def reset_force_def)
  finally show ?thesis by simp
qed


section \<open>Loading a data set with an edge out of range\<close>

lemma length_initial_nodes [simp]: "length (initial_nodes rnd data) = length (data_nodes data)"
  by (simp add: initial_nodes_def)

text \<open>
  Claim C5, as amended. When a link of the data set has an index out of range, the load
  ends with a TypeError written to the console (thrown in the first iteration of the
  layout and caught by \<open>loadNetworkData\<close>), and no body and no line is created. The
  graph is not taken back: \<open>edges\<close> holds all links, the bad one among them, and \<open>nodes\<close>
  holds the nodes as initialised, up to their force accumulators.
\<close>

theorem load_out_of_range_edge:
  assumes "\<not> list_all (in_range (length (data_nodes data))) (links data)"
  shows "console (loadNetworkData rnd data st) = console st @ [TypeError] \<and>
         nodeObjects (loadNetworkData rnd data st) = nodeObjects st \<and>
         edgeObjects (loadNetworkData rnd data st) = edgeObjects st \<and>
         edges (loadNetworkData rnd data st) = links data \<and>
         map reset_force (nodes (loadNetworkData rnd data st)) =
           map reset_force (initial_nodes rnd data)"
proof -
  let ?st1 = "st\<lparr>nodes := initial_nodes rnd data, edges := links data\<rparr>"
  have bad: "\<not> edges_in_range ?st1"
    using assms by (simp add: edges_in_range_def)
  obtain r st2 where it: "iteration ?st1 = (r, st2)" by (cases "iteration ?st1")
  have r: "r = Threw TypeError"
    using iteration_out_of_range(1)[OF bad] it by simp
  have st2: "st2 = ?st1\<lparr>nodes := nodes st2\<rparr>"
    using iteration_frame(1)[of ?st1] it by simp
  have ns: "map reset_force (nodes st2) = map reset_force (initial_nodes rnd data)"
    using iteration_out_of_range(2)[OF bad] it by simp
  have "loadNetworkData rnd data st = st2\<lparr>console := console st2 @ [TypeError]\<rparr>"
    using layout_out_of_range[OF bad] it r
    by (simp add: loadNetworkData_def initial_nodes_def Let_def)
  moreover have "console st2 = console st" "nodeObjects st2 = nodeObjects st"
    "edgeObjects st2 = edgeObjects st" "edges st2 = links data"
    by (subst st2, simp)+
  ultimately show ?thesis using ns by simp
qed

theorem load_out_of_range_edge_witness:
  "\<not> list_all (in_range (length (data_nodes bad_data))) (links bad_data) \<and>
   console (loadNetworkData half_rnd bad_data initial_app) = [TypeError] \<and>
   nodeObjects (loadNetworkData half_rnd bad_data initial_app) = [] \<and>
   edgeObjects (loadNetworkData half_rnd bad_data initial_app) = [] \<and>
   edges (loadNetworkData half_rnd bad_data initial_app) = [bad_edge]"
proof -
  have h: "\<not> list_all (in_range (length (data_nodes bad_data))) (links bad_data)"
    by (simp add: bad_data_def bad_edge_def in_range_def)
  show ?thesis
    using h load_out_of_range_edge [OF h, of half_rnd initial_app]
    by (simp add: initial_app_def bad_data_def)
qed

text \<open>
  The claim as stated fails on the data set of one node and one edge from index 0 to
  index 5: after the load has failed, the graph is there, with its node at the initial
  position and with the bad edge.
\<close>

theorem load_bad_edge_counterexample:
  "nodes (loadNetworkData half_rnd bad_data initial_app) =
     [\<lparr>node_id = 0, name = ''A'', group = 0, x = Fin 0, y = Fin 0, z = Fin 0,
       vx = Fin 0, vy = Fin 0, vz = Fin 0, fx = Fin 0, fy = Fin 0, fz = Fin 0\<rparr>] \<and>
   nodes (loadNetworkData half_rnd bad_data initial_app) \<noteq> [] \<and>
   edges (loadNetworkData half_rnd bad_data initial_app) = [bad_edge]"
proof -
  let ?st1 = "initial_app\<lparr>nodes := initial_nodes half_rnd bad_data, edges := links bad_data\<rparr>"
  have bad: "\<not> edges_in_range ?st1"
    by (simp add: edges_in_range_def bad_data_def bad_edge_def in_range_def)
  have "applyForceLayout ?st1 = iteration ?st1"
    by (rule layout_out_of_range[OF bad])
  then show ?thesis
    by (simp add: loadNetworkData_def initial_nodes_def Let_def bad_data_def bad_edge_def
        iteration_def repulsion_def attract_def js_index_def init_node_def half_rnd_def
        reset_force_def js_sub_def initial_app_def)
qed

section \<open>The hover handler\<close>

lemma two_updates:
  "(objs[i := f (objs ! i)])[i := g ((objs[i := f (objs ! i)]) ! i)] = objs[i := g (f (objs ! i))]"
  by (cases "i < length objs") (simp_all add: not_less list_update_beyond)

lemma reset_hover_objs:
  "nodeObjects (snd (reset_hover st)) =
     (case hoveredNode st of
        None \<Rightarrow> nodeObjects st
      | Some h \<Rightarrow> (nodeObjects st)[h := revert_body (nodeObjects st ! h)])"
proof (cases "hoveredNode st")
  case None
  then show ?thesis by (simp add: reset_hover_def)
next
  case (Some h)
  have "(nodeObjects st)[h := revert_body (nodeObjects st ! h)] =
        ((nodeObjects st)[h := (\<lambda>b. b\<lparr>color := originalColor (userData b)\<rparr>) (nodeObjects st ! h)])
          [h := (\<lambda>b. b\<lparr>scale := originalScale (userData b)\<rparr>)
                  (((nodeObjects st)[h := (\<lambda>b. b\<lparr>color := originalColor (userData b)\<rparr>) (nodeObjects st ! h)]) ! h)]"
    by (subst two_updates) (simp add: revert_body_def)
  then show ?thesis using Some by (simp add: reset_hover_def Let_def)
qed

lemma reset_hover_hovered [simp]: "hoveredNode (snd (reset_hover st)) = None"
  by (cases "hoveredNode st") (simp_all add: reset_hover_def Let_def)

lemma reset_hover_acts:
  "fst (reset_hover st) = (case hoveredNode st of None \<Rightarrow> [] | Some h \<Rightarrow> [HighlightRevert h])"
  by (cases "hoveredNode st") (simp_all add: reset_hover_def Let_def)

lemma onMouseMove_objs:
  "nodeObjects (snd (onMouseMove lighterColor intersects event st)) =
     (case intersects of
        [] \<Rightarrow> nodeObjects (snd (reset_hover st))
      | first # rest \<Rightarrow>
          (nodeObjects (snd (reset_hover st)))
            [object first := highlight_body lighterColor (nodeObjects (snd (reset_hover st)) ! object first)])"
proof (cases intersects)
  case Nil
  then show ?thesis by (simp add: onMouseMove_def split_beta)
next
  case (Cons first rest)
  let ?R = "nodeObjects (snd (reset_hover st))"
  let ?b = "object first"
  have "?R[?b := highlight_body lighterColor (?R ! ?b)] =
        (?R[?b := (\<lambda>b. b\<lparr>color := lighterColor (originalColor (userData b))\<rparr>) (?R ! ?b)])
          [?b := (\<lambda>b. b\<lparr>scale := 13 / 10\<rparr>)
                   ((?R[?b := (\<lambda>b. b\<lparr>color := lighterColor (originalColor (userData b))\<rparr>) (?R ! ?b)]) ! ?b)]"
    by (subst two_updates) (simp add: highlight_body_def)
  then show ?thesis using Cons by (simp add: onMouseMove_def split_beta Let_def)
qed

lemma onMouseMove_hovered:
  "hoveredNode (snd (onMouseMove lighterColor intersects event st)) = pick intersects"
  by (cases intersects) (simp_all add: onMouseMove_def split_beta Let_def pick_def)

lemma onMouseMove_acts:
  "fst (onMouseMove lighterColor intersects event st) =
     fst (reset_hover st) @
     (case intersects of [] \<Rightarrow> [] | first # rest \<Rightarrow> [HighlightApply (object first)])"
  by (cases intersects) (simp_all add: onMouseMove_def split_beta Let_def)

lemma highlight_revert_highlight:
  "highlight_body lighterColor (revert_body (highlight_body lighterColor b)) =
   highlight_body lighterColor b"
  by (simp add: highlight_body_def revert_body_def)

lemma rehighlight_objs:
  assumes "objs = base[a := highlight_body lighterColor (base ! a)]"
  shows "(objs[a := revert_body (objs ! a)])
           [a := highlight_body lighterColor (objs[a := revert_body (objs ! a)] ! a)] = objs"
proof (cases "a < length base")
  case True
  then show ?thesis
    by (simp add: assms highlight_revert_highlight)
next
  case False
  then show ?thesis
    by (simp add: assms not_less list_update_beyond)
qed

text \<open>
  Claim C3, as amended. When an event picks body \<open>a\<close> and the next event picks \<open>a\<close>
  again, the second event is not free of actions: it reverts \<open>a\<close> and then applies the
  highlight to \<open>a\<close> again. It leaves the bodies and the hovered body as they were after
  the first event. Over the two events the highlight is applied twice.
\<close>

theorem same_pick_twice:
  "fst (onMouseMove lighterColor (\<lparr>distance = d2, object = a\<rparr> # rest2) event2
         (snd (onMouseMove lighterColor (\<lparr>distance = d1, object = a\<rparr> # rest1) event1 st)))
     = [HighlightRevert a, HighlightApply a] \<and>
   nodeObjects (snd (onMouseMove lighterColor (\<lparr>distance = d2, object = a\<rparr> # rest2) event2
         (snd (onMouseMove lighterColor (\<lparr>distance = d1, object = a\<rparr> # rest1) event1 st))))
     = nodeObjects (snd (onMouseMove lighterColor (\<lparr>distance = d1, object = a\<rparr> # rest1) event1 st)) \<and>
   hoveredNode (snd (onMouseMove lighterColor (\<lparr>distance = d2, object = a\<rparr> # rest2) event2
         (snd (onMouseMove lighterColor (\<lparr>distance = d1, object = a\<rparr> # rest1) event1 st))))
     = Some a \<and>
   hoveredNode (snd (onMouseMove lighterColor (\<lparr>distance = d1, object = a\<rparr> # rest1) event1 st))
     = Some a \<and>
   length (filter is_apply
     (fst (mouse_moves lighterColor
        [(\<lparr>distance = d1, object = a\<rparr> # rest1, event1),
         (\<lparr>distance = d2, object = a\<rparr> # rest2, event2)] st))) = 2"
proof -
  let ?st1 = "snd (onMouseMove lighterColor (\<lparr>distance = d1, object = a\<rparr> # rest1) event1 st)"
  let ?r2 = "onMouseMove lighterColor (\<lparr>distance = d2, object = a\<rparr> # rest2) event2 ?st1"
  have h1: "hoveredNode ?st1 = Some a"
    by (simp add: onMouseMove_hovered pick_def)
  have h2: "hoveredNode (snd ?r2) = Some a"
    by (simp add: onMouseMove_hovered pick_def)
  have a2: "fst ?r2 = [HighlightRevert a, HighlightApply a]"
    by (simp add: onMouseMove_acts reset_hover_acts h1)
  have o1: "nodeObjects ?st1 =
      (nodeObjects (snd (reset_hover st)))
        [a := highlight_body lighterColor (nodeObjects (snd (reset_hover st)) ! a)]"
    by (simp add: onMouseMove_objs)
  have "nodeObjects (snd ?r2) =
      ((nodeObjects ?st1)[a := revert_body (nodeObjects ?st1 ! a)])
        [a := highlight_body lighterColor
                ((nodeObjects ?st1)[a := revert_body (nodeObjects ?st1 ! a)] ! a)]"
    by (simp only: onMouseMove_objs[of _ _ _ ?st1] reset_hover_objs[of ?st1] h1 list.case
        option.case intersection.select_convs)
  also have "\<dots> = nodeObjects ?st1"
    using o1 by (rule rehighlight_objs)
  finally have o2: "nodeObjects (snd ?r2) = nodeObjects ?st1" .
  have a1: "length (filter is_apply (fst (onMouseMove lighterColor (\<lparr>distance = d1, object = a\<rparr> # rest1) event1 st))) = 1"
    by (cases "hoveredNode st") (simp_all add: onMouseMove_acts reset_hover_acts)
  have "length (filter is_apply
     (fst (mouse_moves lighterColor
        [(\<lparr>distance = d1, object = a\<rparr> # rest1, event1),
         (\<lparr>distance = d2, object = a\<rparr> # rest2, event2)] st))) = 2"
    using a1 a2 by (simp add: split_beta)
  with h1 h2 a2 o2 show ?thesis by simp
qed


text \<open>
  The claim C3 as stated fails: two events in a row that pick body 0 apply the
  highlight twice, not once.
\<close>

theorem same_pick_twice_counterexample:
  "length (filter is_apply (fst (mouse_moves to_white
       [([\<lparr>distance = 5, object = 0\<rparr>], pointer), ([\<lparr>distance = 5, object = 0\<rparr>], pointer)]
       example_app))) = 2 \<and>
   length (filter is_apply (fst (mouse_moves to_white
       [([\<lparr>distance = 5, object = 0\<rparr>], pointer), ([\<lparr>distance = 5, object = 0\<rparr>], pointer)]
       example_app))) \<noteq> 1"
  by (simp add: split_beta onMouseMove_acts reset_hover_acts onMouseMove_hovered pick_def
      example_app_def initial_app_def)

lemma revert_create_sphere [simp]: "revert_body (create_sphere n) = create_sphere n"
  by (simp add: revert_body_def create_sphere_def Let_def)

lemma revert_highlight [simp]:
  "revert_body (highlight_body lighterColor b) = revert_body b"
  by (simp add: revert_body_def highlight_body_def)

lemma not_highlighted_create_sphere [simp]: "\<not> highlighted (create_sphere n)"
  by (simp add: highlighted_def create_sphere_def Let_def)

lemma reset_hover_view:
  assumes "nodeObjects st = hover_view lighterColor objs0 (hoveredNode st)"
    and "\<forall>b \<in> set objs0. revert_body b = b"
  shows "nodeObjects (snd (reset_hover st)) = objs0"
proof (cases "hoveredNode st")
  case None
  then show ?thesis using assms(1) by (simp add: reset_hover_objs hover_view_def)
next
  case (Some h)
  show ?thesis
  proof (cases "h < length objs0")
    case True
    then have "revert_body (objs0 ! h) = objs0 ! h" using assms(2) by simp
    then show ?thesis
      using Some True assms(1) by (simp add: reset_hover_objs hover_view_def)
  next
    case False
    then show ?thesis
      using Some assms(1) by (simp add: reset_hover_objs hover_view_def not_less list_update_beyond)
  qed
qed

lemma onMouseMove_view:
  assumes "nodeObjects st = hover_view lighterColor objs0 (hoveredNode st)"
    and "\<forall>b \<in> set objs0. revert_body b = b"
  shows "nodeObjects (snd (onMouseMove lighterColor intersects event st)) =
         hover_view lighterColor objs0
           (hoveredNode (snd (onMouseMove lighterColor intersects event st)))"
  using reset_hover_view[OF assms]
  by (cases intersects) (simp_all add: onMouseMove_objs onMouseMove_hovered pick_def hover_view_def)

lemma mouse_moves_view:
  assumes "\<forall>b \<in> set objs0. revert_body b = b"
  shows "nodeObjects st = hover_view lighterColor objs0 (hoveredNode st) \<Longrightarrow>
         nodeObjects (snd (mouse_moves lighterColor evs st)) =
         hover_view lighterColor objs0 (hoveredNode (snd (mouse_moves lighterColor evs st)))"
proof (induction evs arbitrary: st)
  case Nil
  then show ?case by simp
next
  case (Cons ev evs)
  obtain intersects event where ev: "ev = (intersects, event)" by (cases ev)
  let ?st1 = "snd (onMouseMove lighterColor intersects event st)"
  have "nodeObjects ?st1 = hover_view lighterColor objs0 (hoveredNode ?st1)"
    using Cons.prems assms by (rule onMouseMove_view)
  then have "nodeObjects (snd (mouse_moves lighterColor evs ?st1)) =
         hover_view lighterColor objs0 (hoveredNode (snd (mouse_moves lighterColor evs ?st1)))"
    by (rule Cons.IH)
  then show ?case by (simp add: ev split_beta)
qed

lemma hover_view_highlighted:
  assumes "\<forall>b \<in> set objs0. \<not> highlighted b" and "i < length objs0"
    and "highlighted (hover_view lighterColor objs0 hov ! i)"
  shows "hov = Some i"
proof (cases hov)
  case None
  then show ?thesis using assms by (simp add: hover_view_def)
next
  case (Some h)
  then show ?thesis using assms by (cases "i = h") (simp_all add: hover_view_def)
qed

text \<open>
  Claim C4. Start from the bodies as \<open>createNetworkVisualization\<close> makes them for the
  nodes \<open>ns\<close>, with no body hovered. After any sequence of pointer-move events the
  bodies are the created ones, but for the hovered body, which is highlighted; so at
  most one body is in highlighted visual state. The revert block of the next event
  gives back exactly the bodies as they were created: colour and scale are the values
  recorded in \<open>userData\<close> at creation.
\<close>

theorem hover_invariant:
  assumes "nodeObjects st0 = map create_sphere ns" and "hoveredNode st0 = None"
  shows "nodeObjects (snd (mouse_moves lighterColor evs st0)) =
           hover_view lighterColor (map create_sphere ns)
             (hoveredNode (snd (mouse_moves lighterColor evs st0))) \<and>
         (\<forall>i < length ns. \<forall>j < length ns.
            highlighted (nodeObjects (snd (mouse_moves lighterColor evs st0)) ! i) \<and>
            highlighted (nodeObjects (snd (mouse_moves lighterColor evs st0)) ! j) \<longrightarrow> i = j) \<and>
         nodeObjects (snd (reset_hover (snd (mouse_moves lighterColor evs st0)))) =
           map create_sphere ns"
proof -
  let ?objs0 = "map create_sphere ns"
  let ?st = "snd (mouse_moves lighterColor evs st0)"
  have pristine: "\<forall>b \<in> set ?objs0. revert_body b = b" by auto
  have plain: "\<forall>b \<in> set ?objs0. \<not> highlighted b" by auto
  have "nodeObjects st0 = hover_view lighterColor ?objs0 (hoveredNode st0)"
    using assms by (simp add: hover_view_def)
  with pristine have view: "nodeObjects ?st = hover_view lighterColor ?objs0 (hoveredNode ?st)"
    by (rule mouse_moves_view)
  have one: "i = j" if "i < length ns" "j < length ns"
    "highlighted (nodeObjects ?st ! i)" "highlighted (nodeObjects ?st ! j)" for i j
  proof -
    have "hoveredNode ?st = Some i"
      using plain that(1,3) by (intro hover_view_highlighted[of ?objs0 i lighterColor]) (simp_all add: view)
    moreover have "hoveredNode ?st = Some j"
      using plain that(2,4) by (intro hover_view_highlighted[of ?objs0 j lighterColor]) (simp_all add: view)
    ultimately show ?thesis by simp
  qed
  have "nodeObjects (snd (reset_hover ?st)) = ?objs0"
    using view pristine by (rule reset_hover_view)
  with view one show ?thesis by blast
qed


theorem hover_invariant_witness:
  "nodeObjects example_app = map create_sphere [node_a, node_b] \<and>
   hoveredNode example_app = None \<and>
   hoveredNode (snd (mouse_moves to_white
       [([\<lparr>distance = 5, object = 0\<rparr>], pointer), ([\<lparr>distance = 7, object = 1\<rparr>], pointer)]
       example_app)) = Some 1 \<and>
   nodeObjects (snd (mouse_moves to_white
       [([\<lparr>distance = 5, object = 0\<rparr>], pointer), ([\<lparr>distance = 7, object = 1\<rparr>], pointer)]
       example_app)) =
     [create_sphere node_a, (create_sphere node_b)\<lparr>color := 0xffffff, scale := 13 / 10\<rparr>]"
proof -
  have h: "nodeObjects example_app = map create_sphere [node_a, node_b]"
    "hoveredNode example_app = None"
    by (simp_all add: example_app_def initial_app_def)
  show ?thesis
    using h hover_invariant [OF h, of to_white
        "[([\<lparr>distance = 5, object = 0\<rparr>], pointer), ([\<lparr>distance = 7, object = 1\<rparr>], pointer)]"]
    by (simp add: split_beta onMouseMove_hovered pick_def hover_view_def highlight_body_def
        to_white_def create_sphere_def Let_def)
qed


section \<open>The picked body\<close>

lemma intersectObjects_hit_list: "intersectObjects hit objs = sort_key distance (hit_list hit objs)"
  by (simp add: intersectObjects_def hit_list_def)

lemma set_hit_list:
  "set (hit_list hit objs) =
     {\<lparr>distance = t, object = i\<rparr> | t i. i < length objs \<and> hit (objs ! i) = Some t}"
  by (auto simp: hit_list_def split: option.splits)

lemma sort_key_head_least:
  assumes "sort_key f xs = a # as" and "b \<in> set xs"
  shows "f a \<le> f b"
proof -
  have "sorted (map f (a # as))"
    using sorted_sort_key[of f xs] assms(1) by simp
  moreover have "b \<in> set (a # as)"
    using assms set_sort[of f xs] by simp
  ultimately show ?thesis by auto
qed

lemma sort_key_Nil_iff: "sort_key f xs = [] \<longleftrightarrow> xs = []"
  using length_sort[of f xs] by (metis length_0_conv)

lemma pick_None_iff:
  "pick (intersectObjects hit objs) = None \<longleftrightarrow> (\<forall>i < length objs. hit (objs ! i) = None)"
proof -
  have "pick (intersectObjects hit objs) = None \<longleftrightarrow> sort_key distance (hit_list hit objs) = []"
    by (simp add: pick_def intersectObjects_hit_list split: list.splits)
  also have "\<dots> \<longleftrightarrow> hit_list hit objs = []"
    by (rule sort_key_Nil_iff)
  also have "\<dots> \<longleftrightarrow> set (hit_list hit objs) = {}" by simp
  also have "\<dots> \<longleftrightarrow> (\<forall>i < length objs. hit (objs ! i) = None)"
    by (subst set_hit_list) (auto simp: not_Some_eq[symmetric] simp del: not_Some_eq)
  finally show ?thesis .
qed

lemma pick_Some:
  assumes "pick (intersectObjects hit objs) = Some b"
  shows "b < length objs \<and>
         (\<exists>t. hit (objs ! b) = Some t \<and>
              (\<forall>i < length objs. \<forall>u. hit (objs ! i) = Some u \<longrightarrow> t \<le> u))"
proof -
  obtain first rest where s: "sort_key distance (hit_list hit objs) = first # rest"
    and b: "object first = b"
    using assms by (auto simp: pick_def intersectObjects_hit_list split: list.splits)
  have "first \<in> set (sort_key distance (hit_list hit objs))" by (simp add: s)
  then have "first \<in> set (hit_list hit objs)" by simp
  then obtain t where first: "first = \<lparr>distance = t, object = b\<rparr>"
    and lt: "b < length objs" and hb: "hit (objs ! b) = Some t"
    using b by (auto simp: set_hit_list)
  have "t \<le> u" if "i < length objs" "hit (objs ! i) = Some u" for i u
  proof -
    have "\<lparr>distance = u, object = i\<rparr> \<in> set (hit_list hit objs)"
      using that by (auto simp: set_hit_list)
    from sort_key_head_least[OF s this] show ?thesis by (simp add: first)
  qed
  with lt hb show ?thesis by blast
qed

text \<open>
  Claim C8. With the ray cast modelled as above, the handler ends with no hovered body
  exactly when the ray meets no body; and when it ends with body \<open>b\<close> hovered, the ray
  meets \<open>b\<close>, at a parameter that is least among the parameters of all bodies it meets.
  The witness is the case of two bodies at parameters 10 and 5: the one at 5 is taken.
\<close>

theorem pick_nearest:
  "(hoveredNode (snd (onMouseMove lighterColor (intersectObjects hit (nodeObjects st)) event st)) = None
      \<longleftrightarrow> (\<forall>i < length (nodeObjects st). hit (nodeObjects st ! i) = None)) \<and>
   (\<forall>b. hoveredNode (snd (onMouseMove lighterColor (intersectObjects hit (nodeObjects st)) event st)) = Some b
      \<longrightarrow> b < length (nodeObjects st) \<and>
          (\<exists>t. hit (nodeObjects st ! b) = Some t \<and>
               (\<forall>i < length (nodeObjects st). \<forall>u. hit (nodeObjects st ! i) = Some u \<longrightarrow> t \<le> u)))"
  unfolding onMouseMove_hovered using pick_None_iff pick_Some by blast

theorem pick_nearest_witness:
  "ray_hits (nodeObjects example_app ! 0) = Some 10 \<and>
   ray_hits (nodeObjects example_app ! 1) = Some 5 \<and>
   intersectObjects ray_hits (nodeObjects example_app) =
     [\<lparr>distance = 5, object = 1\<rparr>, \<lparr>distance = 10, object = 0\<rparr>] \<and>
   hoveredNode (snd (onMouseMove to_white (intersectObjects ray_hits (nodeObjects example_app))
                  pointer example_app)) = Some 1"
  using pick_nearest [of to_white ray_hits example_app pointer]
  by (simp add: example_app_def ray_hits_def create_sphere_def node_a_def node_b_def
      intersectObjects_def onMouseMove_hovered pick_def upt_rec Let_def)

section \<open>The net force of an iteration\<close>

lemma iteration_force_passes:
  "iteration g =
     (case force_passes g of
        (Completed, ns3) \<Rightarrow> (Completed, g\<lparr>nodes := map integrate ns3\<rparr>)
      | (Threw err, ns3) \<Rightarrow> (Threw err, g\<lparr>nodes := ns3\<rparr>))"
  by (simp add: iteration_def force_passes_def Let_def)

lemma is_finite_iff: "is_finite a \<longleftrightarrow> (\<exists>r. a = Fin r)"
  by (cases a) simp_all

lemma sqrt_sum_pos: "0 < sqrt (a * a + b * b + c * c) + 1 / 10"
proof -
  have "0 \<le> a * a + b * b + c * c" by simp
  then have "0 \<le> sqrt (a * a + b * b + c * c)" by (rule real_sqrt_ge_zero)
  then show ?thesis by linarith
qed

lemma fin_repulsion_force:
  assumes "fin_pos a" "fin_pos b"
  shows "fin_vec (repulsion_force a b)"
proof -
  obtain ax ay az bx by' bz where
    "x a = Fin ax" "y a = Fin ay" "z a = Fin az" "x b = Fin bx" "y b = Fin by'" "z b = Fin bz"
    using assms by (auto simp: fin_pos_def is_finite_iff)
  moreover have "sqrt ((ax - bx) * (ax - bx) + (ay - by') * (ay - by') + (az - bz) * (az - bz)) + 1 / 10 \<noteq> 0"
    using sqrt_sum_pos[of "ax - bx" "ay - by'" "az - bz"] by simp
  ultimately show ?thesis
    by (simp add: repulsion_force_def fin_vec_def js_sub_def Let_def not_less)
qed

lemma sum_squares_zero: "(a::real) * a + b * b + c * c = 0 \<longleftrightarrow> a = 0 \<and> b = 0 \<and> c = 0"
  by (smt (verit) mult_eq_0_iff zero_le_square)

lemma fin_attraction_force:
  assumes "fin_pos a" "fin_pos b" "\<not> same_pos a b"
  shows "fin_vec (attraction_force a b)"
proof -
  obtain ax ay az bx by' bz where c:
    "x a = Fin ax" "y a = Fin ay" "z a = Fin az" "x b = Fin bx" "y b = Fin by'" "z b = Fin bz"
    using assms by (auto simp: fin_pos_def is_finite_iff)
  have "\<not> (bx - ax = 0 \<and> by' - ay = 0 \<and> bz - az = 0)"
    using assms(3) c by (auto simp: same_pos_def)
  then have "(bx - ax) * (bx - ax) + (by' - ay) * (by' - ay) + (bz - az) * (bz - az) \<noteq> 0"
    using sum_squares_zero[of "bx - ax" "by' - ay" "bz - az"] by blast
  then have "sqrt ((bx - ax) * (bx - ax) + (by' - ay) * (by' - ay) + (bz - az) * (bz - az)) \<noteq> 0"
    by simp
  with c show ?thesis
    by (simp add: attraction_force_def fin_vec_def js_sub_def Let_def not_less)
qed

lemma sum_list_update_real:
  fixes rs :: "real list"
  assumes "i < length rs"
  shows "sum_list (rs[i := r]) = sum_list rs - rs ! i + r"
  using assms
proof (induction rs arbitrary: i)
  case Nil
  then show ?case by simp
next
  case (Cons a rs)
  then show ?case by (cases i) simp_all
qed

lemma sum_pair_update:
  fixes g :: "node \<Rightarrow> real"
  assumes "i \<noteq> j" "i < length ns" "j < length ns"
    and "g a = g (ns ! i) + r" "g b = g (ns ! j) - r"
  shows "sum_list (map g (ns[i := a, j := b])) = sum_list (map g ns)"
  using assms by (simp add: map_update sum_list_update_real)

lemma force_add [simp]:
  "fin_force n \<Longrightarrow> fin_vec v \<Longrightarrow> fin_force (add_force v n)"
  "fin_force n \<Longrightarrow> fin_vec v \<Longrightarrow> fin_force (sub_force v n)"
  by (auto simp: fin_force_def fin_vec_def add_force_def sub_force_def is_finite_iff js_sub_def)

lemma real_of_add_force:
  assumes "fin_force n" "fin_vec v"
  shows "real_of (fx (add_force v n)) = real_of (fx n) + real_of (fst v)"
    "real_of (fy (add_force v n)) = real_of (fy n) + real_of (fst (snd v))"
    "real_of (fz (add_force v n)) = real_of (fz n) + real_of (snd (snd v))"
    "real_of (fx (sub_force v n)) = real_of (fx n) - real_of (fst v)"
    "real_of (fy (sub_force v n)) = real_of (fy n) - real_of (fst (snd v))"
    "real_of (fz (sub_force v n)) = real_of (fz n) - real_of (snd (snd v))"
  using assms
  by (auto simp: fin_force_def fin_vec_def add_force_def sub_force_def is_finite_iff js_sub_def)

lemma balanced_pair_update:
  assumes "balanced ns" "i \<noteq> j" "i < length ns" "j < length ns" "fin_vec v"
  shows "balanced (ns[i := add_force v (ns ! i), j := sub_force v (ns ! j)])"
proof -
  have fi: "fin_force (ns ! i)" and fj: "fin_force (ns ! j)"
    using assms by (simp_all add: balanced_def list_all_length)
  have all: "list_all fin_force (ns[i := add_force v (ns ! i), j := sub_force v (ns ! j)])"
    using assms fi fj by (simp add: balanced_def list_all_length nth_list_update)
  have "sum_list (map (\<lambda>n. real_of (fx n)) (ns[i := add_force v (ns ! i), j := sub_force v (ns ! j)]))
      = sum_list (map (\<lambda>n. real_of (fx n)) ns)"
    using assms(2-4) by (rule sum_pair_update) (simp_all add: real_of_add_force fi fj assms(5))
  moreover have "sum_list (map (\<lambda>n. real_of (fy n)) (ns[i := add_force v (ns ! i), j := sub_force v (ns ! j)]))
      = sum_list (map (\<lambda>n. real_of (fy n)) ns)"
    using assms(2-4) by (rule sum_pair_update) (simp_all add: real_of_add_force fi fj assms(5))
  moreover have "sum_list (map (\<lambda>n. real_of (fz n)) (ns[i := add_force v (ns ! i), j := sub_force v (ns ! j)]))
      = sum_list (map (\<lambda>n. real_of (fz n)) ns)"
    using assms(2-4) by (rule sum_pair_update) (simp_all add: real_of_add_force fi fj assms(5))
  ultimately show ?thesis using assms(1) all by (simp add: balanced_def)
qed


lemma fold_invariant:
  assumes "P s" and "\<And>a s. a \<in> set as \<Longrightarrow> P s \<Longrightarrow> P (f a s)"
  shows "P (fold f as s)"
  using assms by (induction as arbitrary: s) simp_all

lemma reset_force_eq_pos:
  assumes "reset_force a = reset_force b"
  shows "same_pos a b" and "fin_pos a \<longleftrightarrow> fin_pos b"
proof -
  have "x (reset_force a) = x (reset_force b)" "y (reset_force a) = y (reset_force b)"
    "z (reset_force a) = z (reset_force b)"
    using assms by simp_all
  then have "x a = x b" "y a = y b" "z a = z b" by (simp_all add: reset_force_def)
  then show "same_pos a b" and "fin_pos a \<longleftrightarrow> fin_pos b"
    by (simp_all add: same_pos_def fin_pos_def)
qed

lemma passes_inv_nth:
  assumes "passes_inv ns0 ns" "k < length ns0"
  shows "reset_force (ns ! k) = reset_force (ns0 ! k)" and "length ns = length ns0"
proof -
  have eq: "map reset_force ns = map reset_force ns0" using assms(1) by (simp add: passes_inv_def)
  then show len: "length ns = length ns0" by (rule map_eq_imp_length_eq)
  have "map reset_force ns ! k = map reset_force ns0 ! k" by (simp only: eq)
  then show "reset_force (ns ! k) = reset_force (ns0 ! k)" using assms(2) len by simp
qed

lemma passes_inv_repel:
  assumes "list_all fin_pos ns0" "passes_inv ns0 ns" "i < j" "j < length ns0"
  shows "passes_inv ns0 (repel i j ns)"
proof -
  have len: "length ns = length ns0" using passes_inv_nth(2)[OF assms(2)] assms(3,4) by simp
  have i: "i < length ns0" using assms(3,4) by simp
  have "fin_pos (ns ! i)" "fin_pos (ns ! j)"
    using reset_force_eq_pos(2)[OF passes_inv_nth(1)[OF assms(2) i]]
      reset_force_eq_pos(2)[OF passes_inv_nth(1)[OF assms(2) assms(4)]] assms(1,4) i
    by (simp_all add: list_all_length)
  then have v: "fin_vec (repulsion_force (ns ! i) (ns ! j))" by (rule fin_repulsion_force)
  have eq: "repel i j ns = ns[i := add_force (repulsion_force (ns ! i) (ns ! j)) (ns ! i),
                              j := sub_force (repulsion_force (ns ! i) (ns ! j)) (ns ! j)]"
    using assms(3,4) i len by (intro repel_eq) simp_all
  have "balanced (ns[i := add_force (repulsion_force (ns ! i) (ns ! j)) (ns ! i),
                     j := sub_force (repulsion_force (ns ! i) (ns ! j)) (ns ! j)])"
    using assms(2,3,4) i len v by (intro balanced_pair_update) (simp_all add: passes_inv_def)
  then have "balanced (repel i j ns)" by (simp only: eq)
  moreover have "map reset_force (repel i j ns) = map reset_force ns0"
    using assms(2) by (simp add: reset_repel passes_inv_def)
  ultimately show ?thesis by (simp add: passes_inv_def)
qed

lemma passes_inv_repulsion:
  assumes "list_all fin_pos ns0" "passes_inv ns0 ns"
  shows "passes_inv ns0 (repulsion ns)"
  unfolding repulsion_def
proof (rule fold_invariant[where P = "passes_inv ns0"])
  show "passes_inv ns0 ns" by (rule assms(2))
next
  fix i ms
  assume i: "i \<in> set [0 ..< length ns]" and ms: "passes_inv ns0 ms"
  have n: "length ns = length ns0" "length ms = length ns0"
    using assms(2) ms by (auto simp: passes_inv_def dest: map_eq_imp_length_eq)
  show "passes_inv ns0 (fold (\<lambda>j. repel i j) [Suc i ..< length ms] ms)"
  proof (rule fold_invariant[where P = "passes_inv ns0"])
    show "passes_inv ns0 ms" by (rule ms)
  next
    fix j ks
    assume "j \<in> set [Suc i ..< length ms]" and "passes_inv ns0 ks"
    then show "passes_inv ns0 (repel i j ks)"
      using assms(1) n by (intro passes_inv_repel) simp_all
  qed
qed

lemma attract_eq:
  assumes "in_range (length ns) e" "nat (source e) \<noteq> nat (target e)"
  shows "attract e ns =
     (Completed,
      ns[nat (source e) := add_force (attraction_force (ns ! nat (source e)) (ns ! nat (target e)))
                             (ns ! nat (source e)),
         nat (target e) := sub_force (attraction_force (ns ! nat (source e)) (ns ! nat (target e)))
                             (ns ! nat (target e))])"
proof -
  have "nat (source e) < length ns" "nat (target e) < length ns"
    using assms(1) by (simp_all add: in_range_def nat_less_iff)
  then show ?thesis
    using assms
    by (simp add: attract_def js_index_def in_range_def attraction_force_def add_force_def
        sub_force_def attractionStrength_def Let_def)
qed

lemma passes_inv_attract:
  assumes "list_all fin_pos ns0" "passes_inv ns0 ns" "in_range (length ns0) e"
    and "\<not> same_pos (ns0 ! nat (source e)) (ns0 ! nat (target e))"
  shows "fst (attract e ns) = Completed \<and> passes_inv ns0 (snd (attract e ns))"
proof -
  let ?s = "nat (source e)" and ?t = "nat (target e)"
  have s: "?s < length ns0" and t: "?t < length ns0"
    using assms(3) by (simp_all add: in_range_def nat_less_iff)
  have len: "length ns = length ns0" by (rule passes_inv_nth(2)[OF assms(2) s])
  have ne: "?s \<noteq> ?t" using assms(4) by auto
  have ps: "same_pos (ns ! ?s) (ns0 ! ?s)" "same_pos (ns ! ?t) (ns0 ! ?t)"
    using reset_force_eq_pos(1)[OF passes_inv_nth(1)[OF assms(2) s]]
      reset_force_eq_pos(1)[OF passes_inv_nth(1)[OF assms(2) t]] by simp_all
  have fp: "fin_pos (ns ! ?s)" "fin_pos (ns ! ?t)"
    using reset_force_eq_pos(2)[OF passes_inv_nth(1)[OF assms(2) s]]
      reset_force_eq_pos(2)[OF passes_inv_nth(1)[OF assms(2) t]] assms(1) s t
    by (simp_all add: list_all_length)
  have "\<not> same_pos (ns ! ?s) (ns ! ?t)"
    using assms(4) ps by (simp add: same_pos_def)
  with fp have v: "fin_vec (attraction_force (ns ! ?s) (ns ! ?t))"
    by (intro fin_attraction_force)
  have eq: "attract e ns =
     (Completed, ns[?s := add_force (attraction_force (ns ! ?s) (ns ! ?t)) (ns ! ?s),
                    ?t := sub_force (attraction_force (ns ! ?s) (ns ! ?t)) (ns ! ?t)])"
    using assms(3) ne len by (intro attract_eq) simp_all
  have "balanced (ns[?s := add_force (attraction_force (ns ! ?s) (ns ! ?t)) (ns ! ?s),
                    ?t := sub_force (attraction_force (ns ! ?s) (ns ! ?t)) (ns ! ?t)])"
    using assms(2) ne s t len v by (intro balanced_pair_update) (simp_all add: passes_inv_def)
  moreover have "map reset_force (snd (attract e ns)) = map reset_force ns0"
    using assms(2) by (simp add: reset_attract passes_inv_def)
  ultimately show ?thesis
    by (simp add: eq passes_inv_def)
qed

lemma passes_inv_attraction:
  assumes "list_all fin_pos ns0"
  shows "passes_inv ns0 ns \<Longrightarrow> list_all (in_range (length ns0)) es \<Longrightarrow>
         list_all (\<lambda>e. \<not> same_pos (ns0 ! nat (source e)) (ns0 ! nat (target e))) es \<Longrightarrow>
         fst (attraction es ns) = Completed \<and> passes_inv ns0 (snd (attraction es ns))"
proof (induction es arbitrary: ns)
  case Nil
  then show ?case by simp
next
  case (Cons e es)
  obtain ns' where a: "attract e ns = (Completed, ns')" and inv: "passes_inv ns0 ns'"
    using passes_inv_attract[OF assms Cons.prems(1), of e] Cons.prems(2,3)
    by (cases "attract e ns") auto
  from Cons.IH[OF inv] Cons.prems(2,3) a show ?case by simp
qed

lemma foldr_js_add_finite:
  assumes "list_all is_finite as"
  shows "foldr js_add as (Fin 0) = Fin (sum_list (map real_of as))"
  using assms by (induction as) (auto simp: is_finite_iff)

lemma balanced_net_force:
  assumes "balanced ns"
  shows "net_force ns = (Fin 0, Fin 0, Fin 0)"
proof -
  have "list_all is_finite (map fx ns)" "list_all is_finite (map fy ns)"
    "list_all is_finite (map fz ns)"
    using assms by (simp_all add: balanced_def fin_force_def list_all_length)
  then show ?thesis
    using assms by (simp add: net_force_def foldr_js_add_finite balanced_def comp_def)
qed

text \<open>
  Where the division is defined the two passes are balanced: on a graph whose nodes have
  finite positions and whose edges are in range and join nodes at different positions,
  the force passes return normally and the sum of the force accumulators is zero in
  every component.
\<close>

lemma net_force_zero:
  assumes "list_all fin_pos (nodes g)" and "edges_in_range g"
    and "list_all (\<lambda>e. \<not> same_pos (nodes g ! nat (source e)) (nodes g ! nat (target e))) (edges g)"
  shows "fst (force_passes g) = Completed \<and>
         net_force (snd (force_passes g)) = (Fin 0, Fin 0, Fin 0)"
proof -
  let ?ns0 = "map reset_force (nodes g)"
  have fin: "list_all fin_pos ?ns0"
    using assms(1) by (simp add: list_all_length fin_pos_def reset_force_def)
  have "balanced ?ns0"
    by (induction "nodes g") (simp_all add: balanced_def fin_force_def reset_force_def list_all_length comp_def)
  then have inv0: "passes_inv ?ns0 ?ns0" by (simp add: passes_inv_def)
  have inv1: "passes_inv ?ns0 (repulsion ?ns0)"
    using fin inv0 by (rule passes_inv_repulsion)
  have rng: "list_all (in_range (length ?ns0)) (edges g)"
    using assms(2) by (simp add: edges_in_range_def)
  have apart: "list_all (\<lambda>e. \<not> same_pos (?ns0 ! nat (source e)) (?ns0 ! nat (target e))) (edges g)"
    using assms(2,3)
    by (auto simp: list_all_iff edges_in_range_def in_range_def same_pos_def reset_force_def)
  have "fst (attraction (edges g) (repulsion ?ns0)) = Completed \<and>
        passes_inv ?ns0 (snd (attraction (edges g) (repulsion ?ns0)))"
    using fin inv1 rng apart by (rule passes_inv_attraction)
  then show ?thesis
    by (simp add: force_passes_def passes_inv_def balanced_net_force)
qed

text \<open>
  Claim C9. On the graph of one node with a self-edge the force passes of an iteration
  leave the force accumulator of the node NaN, and so is the sum over all nodes: the
  self-edge does not contribute zero.
\<close>

theorem net_force_self_loop_NaN:
  "force_passes self_loop_graph =
     (Completed, [lone_node\<lparr>fx := NaN, fy := NaN, fz := NaN\<rparr>]) \<and>
   net_force (snd (force_passes self_loop_graph)) = (NaN, NaN, NaN)"
  by (simp add: force_passes_def self_loop_graph_def repulsion_single attract_self_any
      net_force_def reset_force_def)

end
